theory Spec2Isabelle
  imports Complex_Main "HOL-Library.AList"
begin

section \<open>Disk population engine of vader\_cluster.py\<close>

text \<open>
  The development embeds the functions of \<^verbatim>\<open>vader_cluster.py\<close> that act on a disk's
  solver grid, on the FRIED table columns, on the registry of active disk codes and on the
  star records.

  Physical quantities are Python floats wrapped in AMUSE units. They are modelled as
  \<open>real\<close> numbers in one coherent unit per dimension (au for lengths, MSun for masses, yr
  for times), so a unit conversion of the source between such quantities is the identity
  here; the conversions to cm, erg/s and Earth masses are explicit factors. IEEE rounding,
  infinities and NaN are outside the model.
\<close>

subsection \<open>Errors raised by the Python code\<close>

datatype py_error = IndexError | KeyError | ValueError

subsection \<open>Grid query layer\<close>

text \<open>
  A vader grid exposes three arrays of equal length, \<^verbatim>\<open>grid.r\<close>,
  \<^verbatim>\<open>grid.column_density\<close> and \<^verbatim>\<open>grid.area\<close>; \<^verbatim>\<open>grid[i]\<close> is the cell holding
  the \<open>i\<close>-th entry of each. A disk code is modelled by its grid.
\<close>

record cell =
  r :: real
  column_density :: real
  area :: real

type_synonym disk = "cell list"

text \<open>
  \<^verbatim>\<open>get_disk_radius\<close>: the \<^verbatim>\<open>for\<close> loop over the cells, carrying \<^verbatim>\<open>prev_r\<close>.
  Reading \<^verbatim>\<open>disk.grid[0]\<close> of a grid without cells raises.
\<close>

fun radius_scan :: "cell list \<Rightarrow> real \<Rightarrow> real \<Rightarrow> real" where
  "radius_scan [] density_limit prev_r = prev_r"
| "radius_scan (c # cs) density_limit prev_r =
     (if column_density c < density_limit then prev_r
      else radius_scan cs density_limit (r c))"

definition get_disk_radius :: "disk \<Rightarrow> real \<Rightarrow> py_error + real" where
  "get_disk_radius disk density_limit =
     (case disk of
        [] \<Rightarrow> Inl IndexError
      | c0 # _ \<Rightarrow> Inr (radius_scan disk density_limit (r c0)))"

text \<open>The default \<^verbatim>\<open>density_limit=1E-10\<close> of \<^verbatim>\<open>get_disk_radius\<close>.\<close>

definition radius_density_limit :: real where
  "radius_density_limit = 1 / 10 ^ 10"

text \<open>
  \<^verbatim>\<open>get_disk_mass\<close>: \<^verbatim>\<open>zip\<close> stops after as many cells as there are radii
  \<open>\<le> radius\<close>, and pairs them with the first entries of the density and area arrays.
\<close>

definition cell_mass :: "cell \<Rightarrow> real" where
  "cell_mass c = column_density c * area c"

definition get_disk_mass :: "disk \<Rightarrow> real \<Rightarrow> real" where
  "get_disk_mass disk radius =
     (let mass_cells = filter (\<lambda>c. r c \<le> radius) disk
      in sum_list (map cell_mass (take (length mass_cells) disk)))"

text \<open>The default \<^verbatim>\<open>density_limit=1E-11\<close> of \<^verbatim>\<open>truncate_disk\<close>.\<close>

definition truncate_density_limit :: real where
  "truncate_density_limit = 1 / 10 ^ 11"

definition truncate_disk :: "disk \<Rightarrow> real \<Rightarrow> real \<Rightarrow> disk" where
  "truncate_disk disk new_radius density_limit =
     map (\<lambda>c. if r c > new_radius then c\<lparr>column_density := density_limit\<rparr> else c) disk"

text \<open>
  \<^verbatim>\<open>numpy.where(a == v)[0][0]\<close>: the first index holding \<open>v\<close>; IndexError when there
  is none.
\<close>

fun first_index :: "real list \<Rightarrow> real \<Rightarrow> nat option" where
  "first_index [] v = None"
| "first_index (x # xs) v =
     (if x = v then Some 0 else map_option Suc (first_index xs v))"

definition where_first :: "real list \<Rightarrow> real \<Rightarrow> py_error + nat" where
  "where_first xs v = (case first_index xs v of None \<Rightarrow> Inl IndexError | Some i \<Rightarrow> Inr i)"

text \<open>
  \<^verbatim>\<open>evaporate\<close>: the loop runs over \<^verbatim>\<open>range(init_cell)[::-1]\<close>, that is over
  \<open>init_cell - 1, \<dots>, 0\<close>. When the loop ends without a \<^verbatim>\<open>return\<close> the Python function
  returns \<^verbatim>\<open>None\<close>.
\<close>

fun evaporate_loop :: "disk \<Rightarrow> real \<Rightarrow> nat list \<Rightarrow> real \<Rightarrow> disk option" where
  "evaporate_loop disk mass_to_remove [] swiped_mass = None"
| "evaporate_loop disk mass_to_remove (i # is) swiped_mass =
     (let c = disk ! i;
          swiped_mass' = swiped_mass + cell_mass c
      in if swiped_mass' < mass_to_remove
         then evaporate_loop disk mass_to_remove is swiped_mass'
         else if i = 0 then None
         else Some (truncate_disk disk (r c) truncate_density_limit))"

definition evaporate :: "disk \<Rightarrow> real \<Rightarrow> py_error + disk option" where
  "evaporate disk mass_to_remove =
     (case get_disk_radius disk radius_density_limit of
        Inl e \<Rightarrow> Inl e
      | Inr radius \<Rightarrow>
          (case where_first (map r disk) radius of
             Inl e \<Rightarrow> Inl e
           | Inr init_cell \<Rightarrow>
               Inr (evaporate_loop disk mass_to_remove (rev [0..<init_cell]) 0)))"

subsection \<open>Bracketing a value in a column of the FRIED table\<close>

text \<open>
  \<^verbatim>\<open>ndarray.max()\<close> and \<^verbatim>\<open>ndarray.min()\<close> raise ValueError on an array without
  elements.
\<close>

definition np_max :: "real list \<Rightarrow> py_error + real" where
  "np_max xs = (case xs of [] \<Rightarrow> Inl ValueError | x # ys \<Rightarrow> Inr (fold max ys x))"

definition np_min :: "real list \<Rightarrow> py_error + real" where
  "np_min xs = (case xs of [] \<Rightarrow> Inl ValueError | x # ys \<Rightarrow> Inr (fold min ys x))"

text \<open>
  \<^verbatim>\<open>find_indices\<close>: each \<^verbatim>\<open>try\<close> catches the ValueError of the boolean-mask
  selection and falls back to the extremum of the whole column.
\<close>

definition find_indices :: "real list \<Rightarrow> real \<Rightarrow> py_error + nat \<times> nat" where
  "find_indices column val =
     (case (case np_max (filter (\<lambda>x. x < val) column) of
              Inl ValueError \<Rightarrow> np_min column
            | other \<Rightarrow> other) of
        Inl e \<Rightarrow> Inl e
      | Inr value_below \<Rightarrow>
          (case where_first column value_below of
             Inl e \<Rightarrow> Inl e
           | Inr index_i \<Rightarrow>
               (case (case np_min (filter (\<lambda>x. x > val) column) of
                        Inl ValueError \<Rightarrow> np_max column
                      | other \<Rightarrow> other) of
                  Inl e \<Rightarrow> Inl e
                | Inr value_above \<Rightarrow>
                    (case where_first column value_above of
                       Inl e \<Rightarrow> Inl e
                     | Inr index_j \<Rightarrow> Inr (index_i, index_j)))))"

subsection \<open>Luminosity fit\<close>

text \<open>
  \<^verbatim>\<open>luminosity_fit\<close>, in LSun. Every branch that calls \<^verbatim>\<open>numpy.power\<close> has a
  positive base, where it agrees with \<open>powr\<close>.
\<close>

definition luminosity_fit :: "real \<Rightarrow> real" where
  "luminosity_fit mass =
     (if 0.12 < mass \<and> mass < 0.24 then 1.70294 * 10 ^ 16 * mass powr 42.557
      else if 0.24 < mass \<and> mass < 0.56 then 9.11137 / 10 ^ 9 * mass powr 3.8845
      else if 0.56 < mass \<and> mass < 0.70 then 1.10021 / 10 ^ 6 * mass powr 12.237
      else if 0.70 < mass \<and> mass < 0.91 then 2.38690 / 10 ^ 4 * mass powr 27.199
      else if 0.91 < mass \<and> mass < 1.37 then 1.02477 / 10 ^ 4 * mass powr 18.465
      else if 1.37 < mass \<and> mass < 2.07 then 9.66362 / 10 ^ 4 * mass powr 11.410
      else if 2.07 < mass \<and> mass < 3.72 then 6.49335 / 10 ^ 2 * mass powr 5.6147
      else if 3.72 < mass \<and> mass < 10.0 then 6.99075 / 10 * mass powr 3.8058
      else if 10.0 < mass \<and> mass < 20.2 then 9.73664 * mass powr 2.6620
      else if 20.2 < mass then 1.31175 * 10 ^ 2 * mass powr 1.7974
      else 0)"

subsection \<open>Star records\<close>

text \<open>
  The attributes of an AMUSE particle that the modelled functions read or write. Lengths
  are in au, masses in MSun, times in yr; \<open>position\<close> and \<open>velocity\<close> hold the particle's
  \<^verbatim>\<open>x, y, z\<close> and \<^verbatim>\<open>vx, vy, vz\<close>.
\<close>

type_synonym vec3 = "real \<times> real \<times> real"

record star =
  key :: nat
  stellar_mass :: real
  mass :: real
  position :: vec3
  velocity :: vec3
  collisional_radius :: real
  bright :: bool
  disk_radius :: real
  disk_mass :: real
  encounters :: nat
  code :: bool
  dispersed :: bool
  checked :: bool
  dispersal_time :: real
  photoevap_mass_loss :: real
  cumulative_photoevap_mass_loss :: real
  truncation_mass_loss :: real
  cumulative_truncation_mass_loss :: real
  EUV :: bool
  nearby_supernovae :: bool
  g0 :: real
  initial_disk_size :: real
  initial_disk_mass :: real
  disk_size_np :: real
  disk_mass_np :: real

definition vec_sub :: "vec3 \<Rightarrow> vec3 \<Rightarrow> vec3" where
  "vec_sub a b =
     (case a of (ax, ay, az) \<Rightarrow> case b of (bx, by, bz) \<Rightarrow> (ax - bx, ay - by, az - bz))"

definition vec_length :: "vec3 \<Rightarrow> real" where
  "vec_length a = (case a of (ax, ay, az) \<Rightarrow> sqrt (ax ^ 2 + ay ^ 2 + az ^ 2))"

definition cross :: "vec3 \<Rightarrow> vec3 \<Rightarrow> vec3" where
  "cross a b =
     (case a of (ax, ay, az) \<Rightarrow> case b of (bx, by, bz) \<Rightarrow>
        (ay * bz - az * by, az * bx - ax * bz, ax * by - ay * bx))"

subsection \<open>Encounter resolver\<close>

text \<open>
  \<^verbatim>\<open>periastron_distance\<close>. The gravitational constant \<^verbatim>\<open>constants.G\<close> of AMUSE, in
  the units of the star records, is the parameter \<open>G\<close>.
\<close>

definition periastron_distance :: "real \<Rightarrow> star \<times> star \<Rightarrow> real" where
  "periastron_distance G stars =
     (let mu = G * (mass (fst stars) + mass (snd stars));
          rv = vec_sub (position (fst stars)) (position (snd stars));
          v = vec_sub (velocity (fst stars)) (velocity (snd stars));
          E = (vec_length v) ^ 2 / 2 - mu / vec_length rv;
          a = - mu / 2 / E;
          p = (vec_length (cross rv v)) ^ 2 / mu;
          e = sqrt (1 - p / a)
      in p / (1 + e))"

definition truncation_radius :: "real \<Rightarrow> star \<Rightarrow> star \<Rightarrow> real" where
  "truncation_radius closest_approach s other =
     (closest_approach / 3) * (stellar_mass s / stellar_mass other) powr 0.32"

text \<open>
  The body of the loop \<^verbatim>\<open>for i in range(2)\<close> of \<^verbatim>\<open>resolve_encounter\<close> for
  \<^verbatim>\<open>stars[i]\<close> = \<open>s\<close> and \<^verbatim>\<open>stars[1 - i]\<close> = \<open>other\<close>. It returns the flag
  \<^verbatim>\<open>truncated\<close>, the star and the entry appended to \<^verbatim>\<open>new_codes\<close>. The assignments
  of the dispersal branch are kept in the order of the source, each reading the star as
  the assignments before it left it.
\<close>

definition resolve_star ::
  "real \<Rightarrow> real \<Rightarrow> bool \<Rightarrow> star \<Rightarrow> star \<Rightarrow> disk option \<Rightarrow> bool \<times> star \<times> disk option" where
  "resolve_star closest_approach time truncated s other disk_code =
     (case disk_code of
        None \<Rightarrow> (truncated, s, None)
      | Some d \<Rightarrow>
          (let tr = truncation_radius closest_approach s other;
               R_disk = disk_radius s;
               (truncated', s', new_code) =
                 (if tr < R_disk then
                    (let s1 = s\<lparr>encounters := encounters s + 1\<rparr>
                     in if tr \<le> 0.5 then
                          (let s2 = s1\<lparr>dispersed := True\<rparr>;
                               s3 = s2\<lparr>disk_radius := tr\<rparr>;
                               s4 = s3\<lparr>disk_mass := 0\<rparr>;
                               s5 = s4\<lparr>dispersal_time := time\<rparr>;
                               s6 = s5\<lparr>truncation_mass_loss := disk_mass s5\<rparr>;
                               s7 = s6\<lparr>cumulative_truncation_mass_loss :=
                                          cumulative_truncation_mass_loss s6 + disk_mass s6\<rparr>
                           in (True, s7, Some d))
                        else
                          (let old_mass = get_disk_mass d R_disk;
                               new_disk = truncate_disk d tr truncate_density_limit;
                               new_mass = get_disk_mass new_disk tr;
                               s2 = s1\<lparr>truncation_mass_loss := old_mass - new_mass\<rparr>;
                               s3 = s2\<lparr>cumulative_truncation_mass_loss :=
                                          cumulative_truncation_mass_loss s2 + (old_mass - new_mass)\<rparr>;
                               s4 = s3\<lparr>disk_mass := new_mass\<rparr>;
                               s5 = s4\<lparr>mass := stellar_mass s4 + disk_mass s4\<rparr>
                           in (True, s5, Some new_disk)))
                  else (truncated, s, Some d))
           in if tr < disk_size_np s' then
                (truncated',
                 s'\<lparr>disk_size_np := tr, disk_mass_np := disk_mass_np s' * 1.6\<rparr>,
                 new_code)
              else (truncated', s', new_code)))"

text \<open>
  \<^verbatim>\<open>resolve_encounter\<close> returns \<^verbatim>\<open>truncated, new_codes\<close> and mutates the two
  stars; the model returns the stars as well.
\<close>

definition resolve_encounter ::
  "real \<Rightarrow> star \<times> star \<Rightarrow> disk option \<times> disk option \<Rightarrow> real \<Rightarrow>
   bool \<times> (disk option \<times> disk option) \<times> (star \<times> star)" where
  "resolve_encounter G stars disk_codes time =
     (let closest_approach = periastron_distance G stars;
          s0 = (fst stars)\<lparr>collisional_radius := 0.49 * closest_approach\<rparr>;
          s1 = (snd stars)\<lparr>collisional_radius := 0.49 * closest_approach\<rparr>;
          (truncated0, s0', code0) =
             resolve_star closest_approach time False s0 s1 (fst disk_codes);
          (truncated1, s1', code1) =
             resolve_star closest_approach time truncated0 s1 s0' (snd disk_codes)
      in (truncated1, (code0, code1), (s0', s1')))"

subsection \<open>Registry of active disk codes\<close>

text \<open>
  \<^verbatim>\<open>main\<close> keeps the list \<^verbatim>\<open>disk_codes\<close>, the dictionary
  \<^verbatim>\<open>disk_codes_indices\<close> from star keys to positions in that list, and the counter
  \<^verbatim>\<open>active_disks\<close>. The dictionary is an association list in insertion order.
\<close>

record registry =
  disk_codes :: "disk list"
  disk_codes_indices :: "(nat \<times> nat) list"
  active_disks :: int

text \<open>
  The registration in the initialisation loop:
  \<^verbatim>\<open>disk_codes.append(s_code); disk_codes_indices[s.key] = len(disk_codes) - 1\<close>.
\<close>

definition register :: "nat \<times> disk \<Rightarrow> registry \<Rightarrow> registry" where
  "register entry reg =
     (let codes = disk_codes reg @ [snd entry]
      in reg\<lparr>disk_codes := codes,
              disk_codes_indices :=
                AList.update (fst entry) (length codes - 1) (disk_codes_indices reg)\<rparr>)"

text \<open>
  The initialisation loop over the small stars, given as the list of their keys and disk
  codes, followed by \<^verbatim>\<open>active_disks = len(small_stars)\<close>.
\<close>

definition initial_registry :: "(nat \<times> disk) list \<Rightarrow> registry" where
  "initial_registry small =
     (fold register small \<lparr>disk_codes = [], disk_codes_indices = [], active_disks = 0\<rparr>)
       \<lparr>active_disks := int (length small)\<rparr>"

text \<open>
  The retirement sequence, which \<^verbatim>\<open>main\<close> repeats verbatim on every path that deletes
  a disk code (supernova, dispersal in an encounter, divergence, density threshold,
  photoevaporation check, \<^verbatim>\<open>evaporate\<close> returning \<^verbatim>\<open>None\<close>):
  \<^verbatim>\<open>
  to_del = disk_codes_indices[s.key]
  disk_codes[to_del].stop()
  del disk_codes[to_del]
  for i in disk_codes_indices:
      if disk_codes_indices[i] > to_del:
          disk_codes_indices[i] -= 1
  del disk_codes_indices[s.key]
  active_disks -= 1
  \<close>
\<close>

definition retire :: "nat \<Rightarrow> registry \<Rightarrow> py_error + registry" where
  "retire k reg =
     (case map_of (disk_codes_indices reg) k of
        None \<Rightarrow> Inl KeyError
      | Some to_del \<Rightarrow>
          if to_del < length (disk_codes reg) then
            Inr \<lparr>disk_codes = take to_del (disk_codes reg) @ drop (Suc to_del) (disk_codes reg),
                 disk_codes_indices =
                   AList.delete k
                     (map (\<lambda>(i, v). if v > to_del then (i, v - 1) else (i, v))
                        (disk_codes_indices reg)),
                 active_disks = active_disks reg - 1\<rparr>
          else Inl IndexError)"

text \<open>A run of retirements; the first exception ends it.\<close>

fun retire_all :: "nat list \<Rightarrow> registry \<Rightarrow> py_error + registry" where
  "retire_all [] reg = Inr reg"
| "retire_all (k # ks) reg =
     (case retire k reg of Inl e \<Rightarrow> Inl e | Inr reg' \<Rightarrow> retire_all ks reg')"

text \<open>
  The registry invariant: the dictionary has one entry per key, its indices are pairwise
  different, they are exactly the positions \<open>0, \<dots>, active_disks - 1\<close>, and these are the
  positions of \<^verbatim>\<open>disk_codes\<close>.
\<close>

definition registry_dense :: "registry \<Rightarrow> bool" where
  "registry_dense reg \<longleftrightarrow>
     distinct (map fst (disk_codes_indices reg)) \<and>
     distinct (map snd (disk_codes_indices reg)) \<and>
     set (map snd (disk_codes_indices reg)) = {0..<length (disk_codes reg)} \<and>
     active_disks reg = int (length (disk_codes reg))"

subsection \<open>Photoevaporation\<close>

text \<open>
  Unit conversions of AMUSE that the photoevaporation pass needs: centimetres per au,
  erg/s per LSun and solar masses per Earth mass. They belong to AMUSE, not to the
  repository; the proofs use only that they are positive.
\<close>

definition au_in_cm :: real where
  "au_in_cm = 1.495978707 * 10 ^ 13"

definition LSun_in_erg_s :: real where
  "LSun_in_erg_s = 3.839 * 10 ^ 33"

definition MEarth :: real where
  "MEarth = 3.0027 / 10 ^ 6"

definition distance :: "star \<Rightarrow> star \<Rightarrow> real" where
  "distance star1 star2 =
     (case position star1 of (x1, y1, z1) \<Rightarrow> case position star2 of (x2, y2, z2) \<Rightarrow>
        sqrt ((x2 - x1) ^ 2 + (y2 - y1) ^ 2 + (z2 - z1) ^ 2))"

definition radiation_at_distance :: "real \<Rightarrow> real \<Rightarrow> real" where
  "radiation_at_distance rad d = rad / (4 * pi * d ^ 2)"

text \<open>The EUV threshold \<^verbatim>\<open>dmin\<close> of a small star, in cm.\<close>

definition dmin :: "star \<Rightarrow> real" where
  "dmin ss = 5 * 10 ^ 17 * 0.25 * sqrt (disk_radius ss * au_in_cm / 10 ^ 14)"

text \<open>
  \<^verbatim>\<open>radiation_ss_G0\<close>: the flux of the bright star \<open>s\<close> at the small star \<open>ss\<close>, in
  units of G0.
\<close>

definition radiation_ss_G0 :: "star \<Rightarrow> star \<Rightarrow> real" where
  "radiation_ss_G0 s ss =
     radiation_at_distance (luminosity_fit (stellar_mass s) * LSun_in_erg_s)
       (distance s ss * au_in_cm) / (1.6 / 10 ^ 3)"

text \<open>
  The loops that fill \<^verbatim>\<open>total_radiation\<close>. The dictionary holds an entry, initially 0,
  for the key of every small star, and only keys of small stars are looked up; it is
  modelled as a function from keys. \<open>radiation_inner s\<close> is the loop over
  \<^verbatim>\<open>small_stars[small_stars.dispersed == False]\<close> for the bright star \<open>s\<close>.
\<close>

fun radiation_inner ::
  "star \<Rightarrow> star list \<Rightarrow> (nat \<Rightarrow> real) \<Rightarrow> star list \<times> (nat \<Rightarrow> real)" where
  "radiation_inner s [] total_radiation = ([], total_radiation)"
| "radiation_inner s (ss # rest) total_radiation =
     (if dispersed ss then
        (let (rest', total') = radiation_inner s rest total_radiation
         in (ss # rest', total'))
      else if distance s ss * au_in_cm < dmin ss then
        (let (rest', total') = radiation_inner s rest total_radiation
         in (ss\<lparr>EUV := True\<rparr> # rest', total'))
      else
        (let (rest', total') =
               radiation_inner s rest
                 (total_radiation(key ss := total_radiation (key ss) + radiation_ss_G0 s ss))
         in (ss # rest', total')))"

definition total_radiation_pass ::
  "star list \<Rightarrow> star list \<Rightarrow> star list \<times> (nat \<Rightarrow> real)" where
  "total_radiation_pass bright_stars small_stars =
     fold (\<lambda>s (small, total_radiation). radiation_inner s small total_radiation)
       bright_stars (small_stars, \<lambda>k. 0)"

text \<open>
  The query point \<^verbatim>\<open>xi\<close> of the interpolation: stellar mass, FUV flux, disk mass and
  disk radius, the last two read from the star's disk code.
\<close>

definition lookup_index :: "registry \<Rightarrow> nat \<Rightarrow> py_error + nat" where
  "lookup_index reg k =
     (case map_of (disk_codes_indices reg) k of
        None \<Rightarrow> Inl KeyError
      | Some i \<Rightarrow> if i < length (disk_codes reg) then Inr i else Inl IndexError)"

definition lookup_code :: "registry \<Rightarrow> nat \<Rightarrow> py_error + disk" where
  "lookup_code reg k =
     (case lookup_index reg k of Inl e \<Rightarrow> Inl e | Inr i \<Rightarrow> Inr (disk_codes reg ! i))"

definition query_point ::
  "(nat \<Rightarrow> real) \<Rightarrow> registry \<Rightarrow> star \<Rightarrow> py_error + real \<times> real \<times> real \<times> real" where
  "query_point total_radiation reg ss =
     (case lookup_code reg (key ss) of
        Inl e \<Rightarrow> Inl e
      | Inr d \<Rightarrow>
          (case get_disk_radius d radius_density_limit of
             Inl e \<Rightarrow> Inl e
           | Inr xi3 \<Rightarrow>
               Inr (stellar_mass ss, total_radiation (key ss), get_disk_mass d xi3, xi3)))"

text \<open>
  The retirement of a star's disk: the assignments to the star common to the two
  photoevaporation paths, and the retirement sequence on the registry.
\<close>

definition retire_star :: "real \<Rightarrow> star \<Rightarrow> registry \<Rightarrow> py_error + star \<times> registry" where
  "retire_star t ss reg =
     (let ss' = ss\<lparr>disk_radius := 0, disk_mass := 0, dispersed := True, checked := True,
                   code := False, dispersal_time := t\<rparr>
      in case retire (key ss) reg of
           Inl e \<Rightarrow> Inl e
         | Inr reg' \<Rightarrow> Inr (ss', reg'))"

text \<open>
  The body of the loop "Apply photoevaporation on small stars" for one star \<open>ss\<close> that is
  not dispersed, in two parts. The first part computes the mass loss of the step and adds
  it to the star's cumulative loss. The FUV mass loss comes from scipy's
  \<^verbatim>\<open>griddata\<close> over the bracketing rows of the FRIED table; the model takes that
  computation as the parameter \<open>fuv\<close>, applied to the star and the query point. \<open>dt\<close> is
  the time step. The source resets \<^verbatim>\<open>ss.EUV\<close> only when it is set, which leaves it
  unset in both cases.
\<close>

definition accumulate_photoevap_loss ::
  "(star \<Rightarrow> real \<times> real \<times> real \<times> real \<Rightarrow> real) \<Rightarrow> real \<Rightarrow> (nat \<Rightarrow> real) \<Rightarrow>
   registry \<Rightarrow> star \<Rightarrow> py_error + star \<times> real" where
  "accumulate_photoevap_loss fuv dt total_radiation reg ss =
     (let ss1 = ss\<lparr>g0 := total_radiation (key ss)\<rparr>;
          total_photoevap_mass_loss_euv =
            (if EUV ss1
             then 2 * (1 / 10 ^ 9) * 3 * 4.12 * (disk_radius ss1 * au_in_cm / 10 ^ 14) * dt
             else 0);
          ss2 = ss1\<lparr>EUV := False\<rparr>
      in case query_point total_radiation reg ss2 of
           Inl e \<Rightarrow> Inl e
         | Inr xi \<Rightarrow>
             (let total_photoevap_mass_loss_fuv = fuv ss2 xi;
                  total_photoevap_mass_loss =
                    total_photoevap_mass_loss_euv + total_photoevap_mass_loss_fuv;
                  ss3 = ss2\<lparr>photoevap_mass_loss := total_photoevap_mass_loss\<rparr>;
                  ss4 = ss3\<lparr>cumulative_photoevap_mass_loss :=
                             cumulative_photoevap_mass_loss ss3 + total_photoevap_mass_loss\<rparr>
              in Inr (ss4, total_photoevap_mass_loss)))"

text \<open>
  The second part: the retirement check, and otherwise the call of \<^verbatim>\<open>evaporate\<close> on
  the star's disk code. \<open>t\<close> is the time.
\<close>

definition apply_photoevaporation ::
  "real \<Rightarrow> registry \<Rightarrow> star \<Rightarrow> real \<Rightarrow> py_error + star \<times> registry" where
  "apply_photoevaporation t reg ss total_photoevap_mass_loss =
     (if cumulative_photoevap_mass_loss ss \<ge> initial_disk_mass ss
         \<or> disk_mass ss < 0.03 * MEarth
      then retire_star t ss reg
      else
        (case lookup_index reg (key ss) of
           Inl e \<Rightarrow> Inl e
         | Inr i \<Rightarrow>
             (case evaporate (disk_codes reg ! i) total_photoevap_mass_loss of
                Inl e \<Rightarrow> Inl e
              | Inr None \<Rightarrow> retire_star t ss reg
              | Inr (Some evaporated_disk) \<Rightarrow>
                  (let reg' = reg\<lparr>disk_codes := (disk_codes reg)[i := evaporated_disk]\<rparr>
                   in case get_disk_radius evaporated_disk radius_density_limit of
                        Inl e \<Rightarrow> Inl e
                      | Inr radius \<Rightarrow>
                          Inr (ss\<lparr>disk_radius := radius,
                                  disk_mass := get_disk_mass evaporated_disk radius\<rparr>,
                               reg')))))"

definition photoevaporate_star ::
  "(star \<Rightarrow> real \<times> real \<times> real \<times> real \<Rightarrow> real) \<Rightarrow> real \<Rightarrow> real \<Rightarrow> (nat \<Rightarrow> real) \<Rightarrow>
   star \<Rightarrow> registry \<Rightarrow> py_error + star \<times> registry" where
  "photoevaporate_star fuv t dt total_radiation ss reg =
     (case accumulate_photoevap_loss fuv dt total_radiation reg ss of
        Inl e \<Rightarrow> Inl e
      | Inr (ss', total_photoevap_mass_loss) \<Rightarrow>
          apply_photoevaporation t reg ss' total_photoevap_mass_loss)"

subsection \<open>Concrete inputs\<close>

text \<open>
  Small grids on which the functions are evaluated below. In \<open>disk_two_cells\<close> the third
  cell is empty, so the outer edge is the second cell and one cell lies inside it; in
  \<open>disk_four_cells\<close> the fifth cell is empty and three cells lie inside the outer edge.
\<close>

definition disk_two_cells :: disk where
  "disk_two_cells =
     [\<lparr>r = 1, column_density = 5, area = 1\<rparr>,
      \<lparr>r = 2, column_density = 5, area = 1\<rparr>,
      \<lparr>r = 3, column_density = 0, area = 1\<rparr>]"

definition disk_four_cells :: disk where
  "disk_four_cells =
     [\<lparr>r = 1, column_density = 5, area = 1\<rparr>,
      \<lparr>r = 2, column_density = 5, area = 1\<rparr>,
      \<lparr>r = 3, column_density = 5, area = 1\<rparr>,
      \<lparr>r = 4, column_density = 5, area = 1\<rparr>,
      \<lparr>r = 5, column_density = 0, area = 1\<rparr>]"

text \<open>
  Two small stars of 0.9 MSun with disks of 0.1 MSun and radius 100 au, on a circular
  relative orbit of separation 1/2 au (with \<open>G = 1\<close>).
\<close>

definition star_a :: star where
  "star_a =
     \<lparr>key = 1, stellar_mass = 0.9, mass = 1, position = (1 / 2, 0, 0), velocity = (0, 2, 0),
      collisional_radius = 0.02, bright = False, disk_radius = 100, disk_mass = 0.1,
      encounters = 0, code = True, dispersed = False, checked = False, dispersal_time = 0,
      photoevap_mass_loss = 0, cumulative_photoevap_mass_loss = 0,
      truncation_mass_loss = 0, cumulative_truncation_mass_loss = 0, EUV = False,
      nearby_supernovae = False, g0 = 0, initial_disk_size = 100, initial_disk_mass = 0.1,
      disk_size_np = 100, disk_mass_np = 0.1\<rparr>"

definition star_b :: star where
  "star_b = star_a\<lparr>key := 2, position := (0, 0, 0), velocity := (0, 0, 0)\<rparr>"

text \<open>
  A registry holding the disk code of \<open>star_a\<close> alone, and \<open>star_a\<close> after it has lost
  half of its initial disk mass to photoevaporation.
\<close>

definition registry_a :: registry where
  "registry_a = initial_registry [(1, disk_four_cells)]"

definition star_a_half :: star where
  "star_a_half = star_a\<lparr>cumulative_photoevap_mass_loss := 0.05\<rparr>"

text \<open>A bright star of 25 MSun at the origin, half an au from \<open>star_a\<close>.\<close>

definition star_bright :: star where
  "star_bright =
     star_b\<lparr>key := 3, stellar_mass := 25, mass := 25, bright := True, disk_radius := 0,
            disk_mass := 0, code := False\<rparr>"

text \<open>A second bright star of 25 MSun, a million au away on the x axis.\<close>

definition star_far :: star where
  "star_far = star_bright\<lparr>key := 4, position := (1000000, 0, 0)\<rparr>"

section \<open>Properties of the grid query layer\<close>

lemma radius_scan_takeWhile:
  "radius_scan cs dl p =
     (let k = length (takeWhile (\<lambda>c. dl \<le> column_density c) cs)
      in if k = 0 then p else r (cs ! (k - 1)))"
proof (induction cs arbitrary: p)
  case Nil
  show ?case by simp
next
  case (Cons c cs)
  show ?case
  proof (cases "column_density c < dl")
    case True
    then show ?thesis by simp
  next
    case False
    then have ge: "dl \<le> column_density c" by simp
    show ?thesis
      using ge Cons.IH [of "r c"] by (simp add: Let_def nth_Cons')
  qed
qed

lemma takeWhile_prefix_holds:
  "i < length (takeWhile P xs) \<Longrightarrow> P (xs ! i)"
  by (metis nth_mem set_takeWhileD takeWhile_nth)

lemma get_disk_radius_edge:
  assumes "disk \<noteq> []"
  shows "\<exists>k\<le>length disk.
           (\<forall>i<k. density_limit \<le> column_density (disk ! i)) \<and>
           (k < length disk \<longrightarrow> column_density (disk ! k) < density_limit) \<and>
           get_disk_radius disk density_limit =
             Inr (if k = 0 then r (disk ! 0) else r (disk ! (k - 1)))"
proof -
  define k where "k = length (takeWhile (\<lambda>c. density_limit \<le> column_density c) disk)"
  have le: "k \<le> length disk"
    unfolding k_def by (rule length_takeWhile_le)
  have before: "\<forall>i<k. density_limit \<le> column_density (disk ! i)"
    unfolding k_def
    using takeWhile_prefix_holds [of _ "\<lambda>c. density_limit \<le> column_density c" disk]
    by blast
  have at: "k < length disk \<longrightarrow> column_density (disk ! k) < density_limit"
    unfolding k_def
    using nth_length_takeWhile [of "\<lambda>c. density_limit \<le> column_density c" disk]
    by auto
  obtain c0 cs where d: "disk = c0 # cs"
    using assms by (cases disk) auto
  have res: "get_disk_radius disk density_limit =
      Inr (if k = 0 then r (disk ! 0) else r (disk ! (k - 1)))"
    unfolding get_disk_radius_def k_def
    by (simp add: d radius_scan_takeWhile [of "c0 # cs"] Let_def del: radius_scan.simps)
  from le before at res show ?thesis by blast
qed

text \<open>
  C7. On a grid with at least one cell, \<^verbatim>\<open>get_disk_radius\<close> scans the cells in grid
  order and returns the radius of the last cell before the column density first drops
  below the density limit: with \<open>k\<close> the number of leading cells whose density is at least
  the limit (cell \<open>k\<close>, when there is one, is the first below it), the result is the radius
  of cell \<open>k - 1\<close>, and the radius of the first cell when \<open>k = 0\<close>.
\<close>

theorem get_disk_radius_outer_edge:
  assumes "disk \<noteq> []"
  shows "\<exists>k\<le>length disk.
           (\<forall>i<k. density_limit \<le> column_density (disk ! i)) \<and>
           (k < length disk \<longrightarrow> column_density (disk ! k) < density_limit) \<and>
           get_disk_radius disk density_limit =
             Inr (if k = 0 then r (disk ! 0) else r (disk ! (k - 1)))"
  using assms by (rule get_disk_radius_edge)

theorem get_disk_radius_outer_edge_witness:
  "[\<lparr>r = 1, column_density = 5, area = 1\<rparr>,
    \<lparr>r = 2, column_density = 4, area = 1\<rparr>,
    \<lparr>r = 3, column_density = 1, area = 1\<rparr>,
    \<lparr>r = 4, column_density = 7, area = 1\<rparr>] \<noteq> [] \<and>
   get_disk_radius
     [\<lparr>r = 1, column_density = 5, area = 1\<rparr>,
      \<lparr>r = 2, column_density = 4, area = 1\<rparr>,
      \<lparr>r = 3, column_density = 1, area = 1\<rparr>,
      \<lparr>r = 4, column_density = 7, area = 1\<rparr>] 3 = Inr 2"
  using get_disk_radius_outer_edge
    [of "[\<lparr>r = 1, column_density = 5, area = 1\<rparr>,
      \<lparr>r = 2, column_density = 4, area = 1\<rparr>,
      \<lparr>r = 3, column_density = 1, area = 1\<rparr>,
      \<lparr>r = 4, column_density = 7, area = 1\<rparr>]" 3]
  by (simp add: get_disk_radius_def)

lemma truncate_disk_length: "length (truncate_disk disk nr dl) = length disk"
  by (simp add: truncate_disk_def)

lemma truncate_disk_nth_r:
  "i < length disk \<Longrightarrow> r (truncate_disk disk nr dl ! i) = r (disk ! i)"
  by (simp add: truncate_disk_def)

lemma truncate_disk_nth_density:
  "i < length disk \<Longrightarrow>
   column_density (truncate_disk disk nr dl ! i) =
     (if r (disk ! i) > nr then dl else column_density (disk ! i))"
  by (simp add: truncate_disk_def)

lemma truncate_below_radius_limit: "truncate_density_limit < radius_density_limit"
  by (simp add: truncate_density_limit_def radius_density_limit_def)

lemma radius_after_truncate:
  assumes ne: "disk \<noteq> []" and inner: "r (disk ! 0) \<le> new_radius"
  shows "\<exists>radius. get_disk_radius (truncate_disk disk new_radius truncate_density_limit)
                      radius_density_limit = Inr radius \<and> radius \<le> new_radius"
proof -
  let ?d = "truncate_disk disk new_radius truncate_density_limit"
  have ne': "?d \<noteq> []"
    using ne by (simp add: truncate_disk_def)
  from get_disk_radius_edge [OF ne', of radius_density_limit]
  obtain k where k: "k \<le> length ?d"
    and before: "\<forall>i<k. radius_density_limit \<le> column_density (?d ! i)"
    and res: "get_disk_radius ?d radius_density_limit =
                Inr (if k = 0 then r (?d ! 0) else r (?d ! (k - 1)))"
    by blast
  have len: "length ?d = length disk" by (rule truncate_disk_length)
  have "(if k = 0 then r (?d ! 0) else r (?d ! (k - 1))) \<le> new_radius"
  proof (cases "k = 0")
    case True
    then show ?thesis using ne inner by (simp add: truncate_disk_nth_r)
  next
    case False
    then have i: "k - 1 < length disk" "k - 1 < k" using k len by auto
    have "radius_density_limit \<le> column_density (?d ! (k - 1))"
      using before i(2) by blast
    then have "\<not> r (disk ! (k - 1)) > new_radius"
      using truncate_below_radius_limit i(1) by (auto simp: truncate_disk_nth_density)
    then show ?thesis using False i(1) by (simp add: truncate_disk_nth_r)
  qed
  with res show ?thesis by blast
qed

text \<open>
  C8. The density that \<^verbatim>\<open>truncate_disk\<close> writes by default (1E-11) is strictly below
  the default limit of \<^verbatim>\<open>get_disk_radius\<close> (1E-10); hence, for a grid with at least one
  cell and a truncation radius not smaller than the radius of the innermost cell, the
  radius read after the truncation is at most the truncation radius.
\<close>

theorem truncate_disk_visible:
  assumes "disk \<noteq> []" and "r (disk ! 0) \<le> new_radius"
  shows "truncate_density_limit < radius_density_limit \<and>
         (\<exists>radius. get_disk_radius (truncate_disk disk new_radius truncate_density_limit)
                      radius_density_limit = Inr radius \<and> radius \<le> new_radius)"
  using radius_after_truncate [OF assms] truncate_below_radius_limit by blast

theorem truncate_disk_visible_witness:
  "[\<lparr>r = 1, column_density = 5, area = 1\<rparr>,
    \<lparr>r = 2, column_density = 4, area = 1\<rparr>,
    \<lparr>r = 3, column_density = 3, area = 1\<rparr>] \<noteq> [] \<and>
   r ([\<lparr>r = 1, column_density = 5, area = 1\<rparr>,
       \<lparr>r = 2, column_density = 4, area = 1\<rparr>,
       \<lparr>r = 3, column_density = 3, area = 1\<rparr>] ! 0) \<le> 2 \<and>
   (\<exists>radius. get_disk_radius
      (truncate_disk
         [\<lparr>r = 1, column_density = 5, area = 1\<rparr>,
          \<lparr>r = 2, column_density = 4, area = 1\<rparr>,
          \<lparr>r = 3, column_density = 3, area = 1\<rparr>] 2 truncate_density_limit)
      radius_density_limit = Inr radius \<and> radius \<le> 2)"
  using truncate_disk_visible
    [of "[\<lparr>r = 1, column_density = 5, area = 1\<rparr>,
          \<lparr>r = 2, column_density = 4, area = 1\<rparr>,
          \<lparr>r = 3, column_density = 3, area = 1\<rparr>]" 2]
  by simp

section \<open>Properties of evaporate\<close>

lemma first_index_Some:
  "first_index xs v = Some i \<Longrightarrow> i < length xs \<and> xs ! i = v \<and> (\<forall>j<i. xs ! j \<noteq> v)"
proof (induction xs arbitrary: i)
  case Nil
  then show ?case by simp
next
  case (Cons x xs)
  show ?case
  proof (cases "x = v")
    case True
    with Cons.prems show ?thesis by simp
  next
    case False
    with Cons.prems obtain i' where i': "first_index xs v = Some i'" "i = Suc i'"
      by auto
    from Cons.IH [OF i'(1)] False i'(2) show ?thesis
      by (auto simp: nth_Cons')
  qed
qed

lemma evaporate_loop_Some:
  "evaporate_loop disk m js s = Some d' \<Longrightarrow>
   \<exists>i\<in>set js. i \<noteq> 0 \<and> d' = truncate_disk disk (r (disk ! i)) truncate_density_limit"
proof (induction js arbitrary: s)
  case Nil
  then show ?case by simp
next
  case (Cons j js)
  show ?case
  proof (cases "s + cell_mass (disk ! j) < m")
    case True
    with Cons.prems have "evaporate_loop disk m js (s + cell_mass (disk ! j)) = Some d'"
      by (simp add: Let_def)
    from Cons.IH [OF this] show ?thesis by auto
  next
    case False
    with Cons.prems show ?thesis
      by (auto simp: Let_def split: if_splits)
  qed
qed

lemma evaporate_loop_None:
  "0 \<notin> set js \<Longrightarrow> s < m \<Longrightarrow> evaporate_loop disk m (js @ ks) s = None \<Longrightarrow>
   s + sum_list (map (\<lambda>i. cell_mass (disk ! i)) js) < m"
proof (induction js arbitrary: s)
  case Nil
  then show ?case by simp
next
  case (Cons j js)
  from Cons.prems(1) have j: "j \<noteq> 0" and js: "0 \<notin> set js" by auto
  show ?case
  proof (cases "s + cell_mass (disk ! j) < m")
    case True
    with Cons.prems(3) have "evaporate_loop disk m (js @ ks) (s + cell_mass (disk ! j)) = None"
      by (simp add: Let_def)
    from Cons.IH [OF js True this] show ?thesis by (simp add: add.assoc)
  next
    case False
    with Cons.prems(3) j show ?thesis by (simp add: Let_def)
  qed
qed

lemma evaporate_Inr:
  assumes "evaporate disk m = Inr res"
  shows "\<exists>radius init_cell.
           get_disk_radius disk radius_density_limit = Inr radius \<and>
           where_first (map r disk) radius = Inr init_cell \<and>
           init_cell < length disk \<and> r (disk ! init_cell) = radius \<and>
           res = evaporate_loop disk m (rev [0..<init_cell]) 0"
proof -
  from assms obtain radius where rad: "get_disk_radius disk radius_density_limit = Inr radius"
    unfolding evaporate_def by (auto split: sum.splits)
  with assms obtain init_cell where ic: "where_first (map r disk) radius = Inr init_cell"
    unfolding evaporate_def by (auto split: sum.splits)
  then have fi: "first_index (map r disk) radius = Some init_cell"
    unfolding where_first_def by (auto split: option.splits)
  from first_index_Some [OF fi] have "init_cell < length disk" "r (disk ! init_cell) = radius"
    by auto
  moreover from assms rad ic have "res = evaporate_loop disk m (rev [0..<init_cell]) 0"
    unfolding evaporate_def by simp
  ultimately show ?thesis using rad ic by blast
qed

lemma evaporate_Some:
  assumes "evaporate disk m = Inr (Some d')"
  shows "\<exists>radius init_cell i.
           get_disk_radius disk radius_density_limit = Inr radius \<and>
           init_cell < length disk \<and> r (disk ! init_cell) = radius \<and>
           1 \<le> i \<and> i < init_cell \<and>
           d' = truncate_disk disk (r (disk ! i)) truncate_density_limit"
proof -
  from evaporate_Inr [OF assms] obtain radius init_cell where
    rad: "get_disk_radius disk radius_density_limit = Inr radius" and
    ic: "init_cell < length disk" "r (disk ! init_cell) = radius" and
    loop: "Some d' = evaporate_loop disk m (rev [0..<init_cell]) 0"
    by blast
  from evaporate_loop_Some [OF loop [symmetric]] obtain i where
    "i \<in> set (rev [0..<init_cell])" "i \<noteq> 0"
    "d' = truncate_disk disk (r (disk ! i)) truncate_density_limit"
    by blast
  then have "1 \<le> i" "i < init_cell" by auto
  with rad ic \<open>d' = _\<close> show ?thesis by blast
qed

text \<open>
  C9. Whenever \<^verbatim>\<open>evaporate\<close> returns a disk, the disk was truncated at the radius of a
  cell of index at least 1. The returned grid has all its cells, the cell of the
  truncation is unchanged and, when the radii of the grid are in increasing order, so is
  the innermost cell.
\<close>

theorem evaporate_keeps_innermost_cell:
  assumes "evaporate disk m = Inr (Some d')"
  shows "\<exists>i. 1 \<le> i \<and> i < length disk \<and>
           d' = truncate_disk disk (r (disk ! i)) truncate_density_limit \<and>
           length d' = length disk \<and> d' \<noteq> [] \<and> d' ! i = disk ! i \<and>
           (sorted (map r disk) \<longrightarrow> d' ! 0 = disk ! 0)"
proof -
  from evaporate_Some [OF assms] obtain init_cell i where
    ic: "init_cell < length disk" and i: "1 \<le> i" "i < init_cell" and
    d': "d' = truncate_disk disk (r (disk ! i)) truncate_density_limit"
    by blast
  have il: "i < length disk" using i ic by simp
  have len: "length d' = length disk" by (simp add: d' truncate_disk_length)
  have ne: "d' \<noteq> []" using len il by auto
  have at_i: "d' ! i = disk ! i"
    using il by (simp add: d' truncate_disk_def)
  have inner: "sorted (map r disk) \<longrightarrow> d' ! 0 = disk ! 0"
  proof
    assume "sorted (map r disk)"
    then have "map r disk ! 0 \<le> map r disk ! i"
      using il by (intro sorted_nth_mono) auto
    moreover have z: "0 < length disk" using il by linarith
    ultimately have "r (disk ! 0) \<le> r (disk ! i)" using il by simp
    then show "d' ! 0 = disk ! 0"
      by (simp add: d' truncate_disk_def nth_map [OF z])
  qed
  from i(1) il d' len ne at_i inner show ?thesis by blast
qed

text \<open>
  C2, as amended. For every disk whose cell radii are in increasing order and every
  positive \<^verbatim>\<open>mass_to_remove\<close>: a disk returned by \<^verbatim>\<open>evaporate\<close> has a radius at
  most that of the input disk; and \<^verbatim>\<open>evaporate\<close> returns \<^verbatim>\<open>None\<close> only when the mass
  accumulated outside-in over the cells inside the outer edge, the innermost cell
  excluded, is less than \<^verbatim>\<open>mass_to_remove\<close>.
\<close>

theorem evaporate_monotone_and_null:
  assumes sorted: "sorted (map r disk)" and pos: "0 < m"
  shows "(\<forall>d'. evaporate disk m = Inr (Some d') \<longrightarrow>
            (\<exists>radius radius'.
               get_disk_radius disk radius_density_limit = Inr radius \<and>
               get_disk_radius d' radius_density_limit = Inr radius' \<and>
               radius' \<le> radius)) \<and>
         (evaporate disk m = Inr None \<longrightarrow>
            (\<exists>radius init_cell.
               get_disk_radius disk radius_density_limit = Inr radius \<and>
               where_first (map r disk) radius = Inr init_cell \<and>
               (\<Sum>i = 1..<init_cell. cell_mass (disk ! i)) < m))"
proof (intro conjI allI impI)
  fix d'
  assume ev: "evaporate disk m = Inr (Some d')"
  from evaporate_Some [OF ev] obtain radius init_cell i where
    rad: "get_disk_radius disk radius_density_limit = Inr radius" and
    ic: "init_cell < length disk" "r (disk ! init_cell) = radius" and
    i: "1 \<le> i" "i < init_cell" and
    d': "d' = truncate_disk disk (r (disk ! i)) truncate_density_limit"
    by blast
  have ne: "disk \<noteq> []" using ic by auto
  have il: "i < length disk" using i ic by simp
  have "map r disk ! 0 \<le> map r disk ! i"
    using sorted il by (intro sorted_nth_mono) auto
  moreover have "0 < length disk" using il by linarith
  ultimately have inner: "r (disk ! 0) \<le> r (disk ! i)" using il by simp
  have "map r disk ! i \<le> map r disk ! init_cell"
    using sorted i ic by (intro sorted_nth_mono) auto
  then have le: "r (disk ! i) \<le> radius" using il ic by simp
  from radius_after_truncate [OF ne inner] obtain radius' where
    "get_disk_radius d' radius_density_limit = Inr radius'" "radius' \<le> r (disk ! i)"
    unfolding d' by blast
  with rad le show "\<exists>radius radius'.
               get_disk_radius disk radius_density_limit = Inr radius \<and>
               get_disk_radius d' radius_density_limit = Inr radius' \<and>
               radius' \<le> radius"
    by force
next
  assume ev: "evaporate disk m = Inr None"
  from evaporate_Inr [OF ev] obtain radius init_cell where
    rad: "get_disk_radius disk radius_density_limit = Inr radius" and
    wf: "where_first (map r disk) radius = Inr init_cell" and
    loop: "None = evaporate_loop disk m (rev [0..<init_cell]) 0"
    by blast
  have "(\<Sum>i = 1..<init_cell. cell_mass (disk ! i)) < m"
  proof (cases "init_cell = 0")
    case True
    then show ?thesis using pos by simp
  next
    case False
    then have "[0..<init_cell] = 0 # [1..<init_cell]"
      by (simp add: upt_conv_Cons)
    then have split: "rev [0..<init_cell] = rev [1..<init_cell] @ [0]" by simp
    have "0 \<notin> set (rev [1..<init_cell])" by simp
    from evaporate_loop_None [OF this pos, of disk "[0]"] loop split
    have "sum_list (map (\<lambda>i. cell_mass (disk ! i)) (rev [1..<init_cell])) < m"
      by simp
    then show ?thesis
      by (simp add: rev_map [symmetric] interv_sum_list_conv_sum_set_nat)
  qed
  with rad wf show "\<exists>radius init_cell.
               get_disk_radius disk radius_density_limit = Inr radius \<and>
               where_first (map r disk) radius = Inr init_cell \<and>
               (\<Sum>i = 1..<init_cell. cell_mass (disk ! i)) < m"
    by blast
qed


lemma evaporate_two_cells: "evaporate disk_two_cells 3 = Inr None"
  by (simp add: evaporate_def disk_two_cells_def get_disk_radius_def radius_density_limit_def
      where_first_def cell_mass_def)

lemma radius_four_cells: "get_disk_radius disk_four_cells radius_density_limit = Inr 4"
  by (simp add: disk_four_cells_def get_disk_radius_def radius_density_limit_def)

lemma evaporate_four_cells_7:
  "evaporate disk_four_cells 7 =
     Inr (Some (truncate_disk disk_four_cells 2 truncate_density_limit))"
  unfolding evaporate_def radius_four_cells
  by (simp add: where_first_def cell_mass_def eval_nat_numeral disk_four_cells_def
      truncate_disk_def)

lemma evaporate_four_cells_100: "evaporate disk_four_cells 100 = Inr None"
  unfolding evaporate_def radius_four_cells
  by (simp add: where_first_def cell_mass_def eval_nat_numeral disk_four_cells_def)

lemma sorted_four_cells: "sorted (map r disk_four_cells)"
  by (simp add: disk_four_cells_def)

text \<open>
  C2 as stated fails: on \<open>disk_two_cells\<close> with 3 to remove, the only cell inside the
  outer edge is the innermost one; its mass 5 reaches the target there, and the branch
  \<^verbatim>\<open>if i == 0: return None\<close> returns \<^verbatim>\<open>None\<close> although the mass inside the edge is
  not less than 3.
\<close>

theorem evaporate_null_counterexample:
  "evaporate disk_two_cells 3 = Inr None \<and>
   get_disk_radius disk_two_cells radius_density_limit = Inr 2 \<and>
   where_first (map r disk_two_cells) 2 = Inr 1 \<and>
   \<not> (\<Sum>i = 0..<1. cell_mass (disk_two_cells ! i)) < 3 \<and>
   \<not> get_disk_mass disk_two_cells 2 < 3"
  by (simp add: evaporate_two_cells)
     (simp add: disk_two_cells_def get_disk_radius_def radius_density_limit_def
        where_first_def cell_mass_def get_disk_mass_def)

theorem evaporate_monotone_and_null_witness:
  "sorted (map r disk_four_cells) \<and> (0::real) < 7 \<and> (0::real) < 100 \<and>
   (\<exists>d' radius radius'.
      evaporate disk_four_cells 7 = Inr (Some d') \<and>
      get_disk_radius disk_four_cells radius_density_limit = Inr radius \<and>
      get_disk_radius d' radius_density_limit = Inr radius' \<and> radius' \<le> radius) \<and>
   evaporate disk_four_cells 100 = Inr None \<and>
   (\<exists>radius init_cell.
      get_disk_radius disk_four_cells radius_density_limit = Inr radius \<and>
      where_first (map r disk_four_cells) radius = Inr init_cell \<and>
      (\<Sum>i = 1..<init_cell. cell_mass (disk_four_cells ! i)) < 100)"
proof -
  have p7: "(0::real) < 7" and p100: "(0::real) < 100" by simp_all
  from evaporate_monotone_and_null [OF sorted_four_cells p7]
    evaporate_monotone_and_null [OF sorted_four_cells p100]
    evaporate_four_cells_7 evaporate_four_cells_100 sorted_four_cells p7 p100
  show ?thesis by blast
qed

theorem evaporate_keeps_innermost_cell_witness:
  "evaporate disk_four_cells 7 =
     Inr (Some (truncate_disk disk_four_cells 2 truncate_density_limit)) \<and>
   (\<exists>i. 1 \<le> i \<and> i < length disk_four_cells \<and>
      truncate_disk disk_four_cells 2 truncate_density_limit =
        truncate_disk disk_four_cells (r (disk_four_cells ! i)) truncate_density_limit \<and>
      truncate_disk disk_four_cells 2 truncate_density_limit ! 0 = disk_four_cells ! 0)"
proof -
  from evaporate_keeps_innermost_cell [OF evaporate_four_cells_7] sorted_four_cells
    evaporate_four_cells_7
  show ?thesis by blast
qed

section \<open>Properties of find\_indices\<close>

lemma np_max_Max:
  assumes "xs \<noteq> []"
  shows "np_max xs = Inr (Max (set xs))"
proof (cases xs)
  case Nil
  then show ?thesis using assms by simp
next
  case (Cons x ys)
  have "fold max ys x = Max (set (x # ys))" by (rule Max.set_eq_fold [symmetric])
  then show ?thesis by (simp add: np_max_def Cons)
qed

lemma np_min_Min:
  assumes "xs \<noteq> []"
  shows "np_min xs = Inr (Min (set xs))"
proof (cases xs)
  case Nil
  then show ?thesis using assms by simp
next
  case (Cons x ys)
  have "fold min ys x = Min (set (x # ys))" by (rule Min.set_eq_fold [symmetric])
  then show ?thesis by (simp add: np_min_def Cons)
qed

lemma first_index_complete: "v \<in> set xs \<Longrightarrow> \<exists>i. first_index xs v = Some i"
  by (induction xs) auto

lemma where_first_member:
  assumes "v \<in> set xs"
  shows "\<exists>i. where_first xs v = Inr i \<and> i < length xs \<and> xs ! i = v \<and> (\<forall>j<i. xs ! j \<noteq> v)"
proof -
  from first_index_complete [OF assms] obtain i where i: "first_index xs v = Some i" by blast
  from first_index_Some [OF i] i show ?thesis by (simp add: where_first_def)
qed

text \<open>The value chosen below the query, and the value chosen above it.\<close>

lemma value_below:
  assumes "val \<in> set column"
  shows "(case np_max (filter (\<lambda>x. x < val) column) of
            Inl ValueError \<Rightarrow> np_min column | other \<Rightarrow> other) =
         Inr (if \<exists>x\<in>set column. x < val then Max {x \<in> set column. x < val} else val)"
proof (cases "\<exists>x\<in>set column. x < val")
  case True
  then have ne: "filter (\<lambda>x. x < val) column \<noteq> []"
    by (simp add: filter_empty_conv)
  have "set (filter (\<lambda>x. x < val) column) = {x \<in> set column. x < val}" by auto
  with np_max_Max [OF ne] True show ?thesis by simp
next
  case False
  then have emp: "filter (\<lambda>x. x < val) column = []"
    by (auto simp: filter_empty_conv)
  have ne: "column \<noteq> []" using assms by auto
  have "Min (set column) = val"
    using assms False by (intro Min_eqI) (auto simp: not_less)
  with np_min_Min [OF ne] emp False show ?thesis
    by (simp add: np_max_def)
qed

lemma value_above:
  assumes "val \<in> set column"
  shows "(case np_min (filter (\<lambda>x. x > val) column) of
            Inl ValueError \<Rightarrow> np_max column | other \<Rightarrow> other) =
         Inr (if \<exists>x\<in>set column. val < x then Min {x \<in> set column. val < x} else val)"
proof (cases "\<exists>x\<in>set column. val < x")
  case True
  then have ne: "filter (\<lambda>x. x > val) column \<noteq> []"
    by (simp add: filter_empty_conv)
  have "set (filter (\<lambda>x. x > val) column) = {x \<in> set column. val < x}" by auto
  with np_min_Min [OF ne] True show ?thesis by simp
next
  case False
  then have emp: "filter (\<lambda>x. x > val) column = []"
    by (auto simp: filter_empty_conv)
  have ne: "column \<noteq> []" using assms by auto
  have "Max (set column) = val"
    using assms False by (intro Max_eqI) (auto simp: not_less)
  with np_max_Max [OF ne] emp False show ?thesis
    by (simp add: np_min_def)
qed

lemma find_indices_member:
  assumes mem: "val \<in> set column"
    and vb_def: "vb = (if \<exists>x\<in>set column. x < val
                       then Max {x \<in> set column. x < val} else val)"
    and va_def: "va = (if \<exists>x\<in>set column. val < x
                       then Min {x \<in> set column. val < x} else val)"
  shows "\<exists>i j. find_indices column val = Inr (i, j) \<and>
           i < length column \<and> j < length column \<and>
           column ! i = vb \<and> column ! j = va \<and>
           (\<forall>i'<i. column ! i' \<noteq> column ! i) \<and>
           (\<forall>j'<j. column ! j' \<noteq> column ! j) \<and>
           (column ! i = val \<longleftrightarrow> (\<forall>x\<in>set column. val \<le> x)) \<and>
           (column ! j = val \<longleftrightarrow> (\<forall>x\<in>set column. x \<le> val))"
proof -
  let ?B = "{x \<in> set column. x < val}" and ?A = "{x \<in> set column. val < x}"
  have finB: "finite ?B" and finA: "finite ?A" by simp_all
  have vb_in: "vb \<in> set column"
  proof (cases "\<exists>x\<in>set column. x < val")
    case True
    then have "?B \<noteq> {}" by auto
    from Max_in [OF finB this] True show ?thesis by (simp add: vb_def)
  next
    case False
    then show ?thesis using mem by (simp add: vb_def)
  qed
  have va_in: "va \<in> set column"
  proof (cases "\<exists>x\<in>set column. val < x")
    case True
    then have "?A \<noteq> {}" by auto
    from Min_in [OF finA this] True show ?thesis by (simp add: va_def)
  next
    case False
    then show ?thesis using mem by (simp add: va_def)
  qed
  have vb_eq: "vb = val \<longleftrightarrow> (\<forall>x\<in>set column. val \<le> x)"
  proof (cases "\<exists>x\<in>set column. x < val")
    case True
    then have "?B \<noteq> {}" by auto
    from Max_in [OF finB this] have "Max ?B < val" by simp
    moreover from True have "\<not> (\<forall>x\<in>set column. val \<le> x)" by (auto simp: not_le)
    ultimately show ?thesis using True by (simp add: vb_def)
  next
    case False
    then show ?thesis by (auto simp: vb_def not_less)
  qed
  have va_eq: "va = val \<longleftrightarrow> (\<forall>x\<in>set column. x \<le> val)"
  proof (cases "\<exists>x\<in>set column. val < x")
    case True
    then have "?A \<noteq> {}" by auto
    from Min_in [OF finA this] have "val < Min ?A" by simp
    moreover from True have "\<not> (\<forall>x\<in>set column. x \<le> val)" by (auto simp: not_le)
    ultimately show ?thesis using True by (simp add: va_def)
  next
    case False
    then show ?thesis by (auto simp: va_def not_less)
  qed
  from where_first_member [OF vb_in] obtain i where
    i: "where_first column vb = Inr i" "i < length column" "column ! i = vb"
       "\<forall>i'<i. column ! i' \<noteq> vb" by blast
  from where_first_member [OF va_in] obtain j where
    j: "where_first column va = Inr j" "j < length column" "column ! j = va"
       "\<forall>j'<j. column ! j' \<noteq> va" by blast
  have "find_indices column val = Inr (i, j)"
    unfolding find_indices_def value_below [OF mem] value_above [OF mem]
    using i(1) j(1) by (simp add: vb_def va_def)
  with i j vb_eq va_eq show ?thesis by auto
qed

text \<open>
  C4, as amended. For a query value equal to the value of some row of the column,
  \<^verbatim>\<open>find_indices\<close> raises no exception and returns two valid row indices. The first is
  the first row holding the largest column value strictly below the query, or, when no
  value lies below, the first row holding the query value; the second is the first row
  holding the smallest column value strictly above the query, or, when no value lies
  above, the first row holding the query value. Hence the row "below" holds the query
  value only when the query is the minimum of the column, and the row "above" only when
  it is the maximum.
\<close>

theorem find_indices_exact:
  assumes "val \<in> set column"
  shows "\<exists>i j. find_indices column val = Inr (i, j) \<and>
           i < length column \<and> j < length column \<and>
           column ! i = (if \<exists>x\<in>set column. x < val
                         then Max {x \<in> set column. x < val} else val) \<and>
           column ! j = (if \<exists>x\<in>set column. val < x
                         then Min {x \<in> set column. val < x} else val) \<and>
           (\<forall>i'<i. column ! i' \<noteq> column ! i) \<and>
           (\<forall>j'<j. column ! j' \<noteq> column ! j) \<and>
           (column ! i = val \<longleftrightarrow> (\<forall>x\<in>set column. val \<le> x)) \<and>
           (column ! j = val \<longleftrightarrow> (\<forall>x\<in>set column. x \<le> val))"
  using find_indices_member [OF assms refl refl] .

text \<open>
  C4 as stated fails: in the column 1, 2, 3 the query 2 is the value of the second row,
  and \<^verbatim>\<open>find_indices\<close> returns the first and the third row, as its docstring
  \<^verbatim>\<open>column[i] < val < column[j]\<close> says.
\<close>

theorem find_indices_exact_counterexample:
  "(2::real) \<in> set [1, 2, 3] \<and> find_indices [1, 2, 3] 2 = Inr (0, 2) \<and>
   [1, 2, 3 :: real] ! 0 \<noteq> 2 \<and> [1, 2, 3 :: real] ! 2 \<noteq> 2"
  by (simp add: find_indices_def np_max_def np_min_def where_first_def)

theorem find_indices_exact_witness:
  "(2::real) \<in> set [1, 2, 3] \<and>
   (\<exists>i j. find_indices [1, 2, 3] 2 = Inr (i, j) \<and> [1, 2, 3 :: real] ! i = 1 \<and>
      [1, 2, 3 :: real] ! j = 3)"
proof -
  have mem: "(2::real) \<in> set [1, 2, 3]" by simp
  have B: "{x \<in> set [1, 2, 3 :: real]. x < 2} = {1}" by auto
  have A: "{x \<in> set [1, 2, 3 :: real]. 2 < x} = {3}" by auto
  from find_indices_exact [OF mem] obtain i j where
    "find_indices [1, 2, 3] 2 = Inr (i, j)"
    "[1, 2, 3 :: real] ! i = (if \<exists>x\<in>set [1, 2, 3 :: real]. x < 2
                         then Max {x \<in> set [1, 2, 3 :: real]. x < 2} else 2)"
    "[1, 2, 3 :: real] ! j = (if \<exists>x\<in>set [1, 2, 3 :: real]. 2 < x
                         then Min {x \<in> set [1, 2, 3 :: real]. 2 < x} else 2)"
    by blast
  then have "find_indices [1, 2, 3] 2 = Inr (i, j) \<and> [1, 2, 3 :: real] ! i = 1 \<and>
      [1, 2, 3 :: real] ! j = 3"
    unfolding A B by simp
  with mem show ?thesis by blast
qed

section \<open>Properties of the encounter resolver\<close>

lemma resolve_star_dispersal:
  assumes lt: "truncation_radius ca s other < disk_radius s"
    and small: "truncation_radius ca s other \<le> 0.5"
  shows "\<exists>s'. resolve_star ca time truncated s other (Some d) = (True, s', Some d) \<and>
           dispersed s' \<and> disk_mass s' = 0 \<and>
           disk_radius s' = truncation_radius ca s other \<and>
           dispersal_time s' = time \<and> encounters s' = encounters s + 1 \<and>
           stellar_mass s' = stellar_mass s"
  using lt small by (simp add: resolve_star_def Let_def)

lemma resolve_star_stellar_mass:
  "resolve_star ca time truncated s other c = (truncated', s', c') \<Longrightarrow>
   stellar_mass s' = stellar_mass s"
  by (auto simp: resolve_star_def Let_def split: option.splits if_splits)

lemma resolve_star_keeps_flag:
  "resolve_star ca time True s other c = (truncated', s', c') \<Longrightarrow> truncated'"
  by (auto simp: resolve_star_def Let_def split: option.splits if_splits)

lemma truncation_radius_cong:
  "stellar_mass s' = stellar_mass s \<Longrightarrow> stellar_mass o' = stellar_mass other \<Longrightarrow>
   truncation_radius ca s' o' = truncation_radius ca s other"
  by (simp add: truncation_radius_def)

text \<open>
  C1, as amended. In every encounter resolved by \<^verbatim>\<open>resolve_encounter\<close>, a star that has a
  disk code and whose truncation radius is at most 0.5 au and smaller than its disk radius
  is marked dispersed: its disk mass is set to zero, its disk radius is set to the
  truncation radius, its dispersal time is the time of the encounter, its encounter
  counter is incremented, the encounter counts as truncating and the star's disk code is
  returned unchanged.
\<close>

theorem resolve_encounter_dispersal:
  assumes res: "resolve_encounter G (s0, s1) (c0, c1) time = (truncated, (n0, n1), (s0', s1'))"
  shows "(\<forall>d. c0 = Some d \<and>
              truncation_radius (periastron_distance G (s0, s1)) s0 s1 < disk_radius s0 \<and>
              truncation_radius (periastron_distance G (s0, s1)) s0 s1 \<le> 0.5 \<longrightarrow>
            truncated \<and> n0 = Some d \<and> dispersed s0' \<and> disk_mass s0' = 0 \<and>
            disk_radius s0' = truncation_radius (periastron_distance G (s0, s1)) s0 s1 \<and>
            dispersal_time s0' = time \<and> encounters s0' = encounters s0 + 1) \<and>
         (\<forall>d. c1 = Some d \<and>
              truncation_radius (periastron_distance G (s0, s1)) s1 s0 < disk_radius s1 \<and>
              truncation_radius (periastron_distance G (s0, s1)) s1 s0 \<le> 0.5 \<longrightarrow>
            truncated \<and> n1 = Some d \<and> dispersed s1' \<and> disk_mass s1' = 0 \<and>
            disk_radius s1' = truncation_radius (periastron_distance G (s0, s1)) s1 s0 \<and>
            dispersal_time s1' = time \<and> encounters s1' = encounters s1 + 1)"
proof -
  define ca where "ca = periastron_distance G (s0, s1)"
  define a0 where "a0 = s0\<lparr>collisional_radius := 0.49 * ca\<rparr>"
  define a1 where "a1 = s1\<lparr>collisional_radius := 0.49 * ca\<rparr>"
  from res obtain t0 b0 m0 t1 b1 m1 where
    r0: "resolve_star ca time False a0 a1 c0 = (t0, b0, m0)" and
    r1: "resolve_star ca time t0 a1 b0 c1 = (t1, b1, m1)" and
    eqs: "truncated = t1" "n0 = m0" "n1 = m1" "s0' = b0" "s1' = b1"
    unfolding resolve_encounter_def Let_def a0_def a1_def ca_def
    by (auto split: prod.splits)
  have sm0: "stellar_mass b0 = stellar_mass s0"
    using resolve_star_stellar_mass [OF r0] by (simp add: a0_def)
  have tr0: "truncation_radius ca a0 a1 = truncation_radius ca s0 s1"
    by (rule truncation_radius_cong) (simp_all add: a0_def a1_def)
  have tr1: "truncation_radius ca a1 b0 = truncation_radius ca s1 s0"
    by (rule truncation_radius_cong) (simp_all add: a1_def sm0)
  have first: "truncated \<and> n0 = Some d \<and> dispersed s0' \<and> disk_mass s0' = 0 \<and>
            disk_radius s0' = truncation_radius ca s0 s1 \<and>
            dispersal_time s0' = time \<and> encounters s0' = encounters s0 + 1"
    if c: "c0 = Some d" and lt: "truncation_radius ca s0 s1 < disk_radius s0"
      and small: "truncation_radius ca s0 s1 \<le> 0.5" for d
  proof -
    have lt': "truncation_radius ca a0 a1 < disk_radius a0"
      using lt by (simp add: tr0) (simp add: a0_def)
    have small': "truncation_radius ca a0 a1 \<le> 0.5" using small by (simp add: tr0)
    from resolve_star_dispersal [OF lt' small', of time False d] r0 c
    have b0: "t0" "m0 = Some d" "dispersed b0" "disk_mass b0 = 0"
      "disk_radius b0 = truncation_radius ca a0 a1" "dispersal_time b0 = time"
      "encounters b0 = encounters a0 + 1"
      by auto
    from b0(1) have "t0 = True" by simp
    with r1 have "t1" by (auto dest: resolve_star_keeps_flag)
    with b0 show ?thesis by (simp add: eqs tr0) (simp add: a0_def)
  qed
  have second: "truncated \<and> n1 = Some d \<and> dispersed s1' \<and> disk_mass s1' = 0 \<and>
            disk_radius s1' = truncation_radius ca s1 s0 \<and>
            dispersal_time s1' = time \<and> encounters s1' = encounters s1 + 1"
    if c: "c1 = Some d" and lt: "truncation_radius ca s1 s0 < disk_radius s1"
      and small: "truncation_radius ca s1 s0 \<le> 0.5" for d
  proof -
    have lt': "truncation_radius ca a1 b0 < disk_radius a1"
      using lt by (simp add: tr1) (simp add: a1_def)
    have small': "truncation_radius ca a1 b0 \<le> 0.5" using small by (simp add: tr1)
    from resolve_star_dispersal [OF lt' small', of time t0 d] r1 c
    have b1: "t1" "m1 = Some d" "dispersed b1" "disk_mass b1 = 0"
      "disk_radius b1 = truncation_radius ca a1 b0" "dispersal_time b1 = time"
      "encounters b1 = encounters a1 + 1"
      by auto
    then show ?thesis by (simp add: eqs tr1) (simp add: a1_def)
  qed
  from first second show ?thesis unfolding ca_def by blast
qed

lemma sqrt_quarter: "sqrt (1 / 4) = 1 / 2"
  by (simp add: real_sqrt_divide)

lemma periastron_example: "periastron_distance 1 (star_a, star_b) = 1 / 2"
  by (simp add: periastron_distance_def star_a_def star_b_def vec_sub_def vec_length_def
      cross_def Let_def power2_eq_square sqrt_quarter real_sqrt_divide)

lemma truncation_radius_example:
  "truncation_radius (1 / 2) star_a star_b = 1 / 6"
  "truncation_radius (1 / 2) star_b star_a = 1 / 6"
  by (simp_all add: truncation_radius_def star_a_def star_b_def)


lemma truncation_radius_star_a:
  "truncation_radius (periastron_distance 1 (star_a, star_b)) star_a star_b = 1 / 6"
  unfolding periastron_example by (rule truncation_radius_example)

lemma resolve_encounter_example:
  "disk_radius (fst (snd (snd (resolve_encounter 1 (star_a, star_b)
      (Some disk_two_cells, Some disk_two_cells) 7)))) = 1 / 6"
  "truncation_mass_loss (fst (snd (snd (resolve_encounter 1 (star_a, star_b)
      (Some disk_two_cells, Some disk_two_cells) 7)))) = 0"
  "cumulative_truncation_mass_loss (fst (snd (snd (resolve_encounter 1 (star_a, star_b)
      (Some disk_two_cells, Some disk_two_cells) 7)))) = 0"
  unfolding resolve_encounter_def periastron_example
  by (simp_all add: Let_def resolve_star_def truncation_radius_def star_a_def star_b_def)

text \<open>
  C1 as stated fails: \<open>star_a\<close> meets \<open>star_b\<close> with a truncation radius of 1/6 au, below
  0.5 au and below its disk radius of 100 au, and holds a disk of mass 0.1. After the
  encounter its disk radius is 1/6, not 0, and both the truncation mass loss of the step
  and the cumulative truncation mass loss are 0, not 0.1: the source reads
  \<^verbatim>\<open>stars[i].disk_mass\<close> after having set it to zero.
\<close>

theorem resolve_encounter_dispersal_counterexample:
  "truncation_radius (periastron_distance 1 (star_a, star_b)) star_a star_b = 1 / 6 \<and>
   (1 / 6 :: real) \<le> 0.5 \<and> 1 / 6 < disk_radius star_a \<and> disk_mass star_a = 0.1 \<and>
   disk_radius (fst (snd (snd (resolve_encounter 1 (star_a, star_b)
      (Some disk_two_cells, Some disk_two_cells) 7)))) = 1 / 6 \<and>
   truncation_mass_loss (fst (snd (snd (resolve_encounter 1 (star_a, star_b)
      (Some disk_two_cells, Some disk_two_cells) 7)))) = 0 \<and>
   cumulative_truncation_mass_loss (fst (snd (snd (resolve_encounter 1 (star_a, star_b)
      (Some disk_two_cells, Some disk_two_cells) 7)))) = 0"
  unfolding truncation_radius_star_a resolve_encounter_example
  by (simp add: star_a_def)

theorem resolve_encounter_dispersal_witness:
  "truncation_radius (periastron_distance 1 (star_a, star_b)) star_a star_b < disk_radius star_a \<and>
   truncation_radius (periastron_distance 1 (star_a, star_b)) star_a star_b \<le> 0.5 \<and>
   fst (resolve_encounter 1 (star_a, star_b) (Some disk_two_cells, Some disk_two_cells) 7) \<and>
   fst (fst (snd (resolve_encounter 1 (star_a, star_b)
      (Some disk_two_cells, Some disk_two_cells) 7))) = Some disk_two_cells \<and>
   dispersed (fst (snd (snd (resolve_encounter 1 (star_a, star_b)
      (Some disk_two_cells, Some disk_two_cells) 7)))) \<and>
   disk_mass (fst (snd (snd (resolve_encounter 1 (star_a, star_b)
      (Some disk_two_cells, Some disk_two_cells) 7)))) = 0"
proof -
  let ?R = "resolve_encounter 1 (star_a, star_b) (Some disk_two_cells, Some disk_two_cells) 7"
  have res: "?R = (fst ?R, (fst (fst (snd ?R)), snd (fst (snd ?R))),
                   (fst (snd (snd ?R)), snd (snd (snd ?R))))"
    by simp
  have lt: "truncation_radius (periastron_distance 1 (star_a, star_b)) star_a star_b
              < disk_radius star_a"
    unfolding truncation_radius_star_a by (simp add: star_a_def)
  have small: "truncation_radius (periastron_distance 1 (star_a, star_b)) star_a star_b \<le> 0.5"
    unfolding truncation_radius_star_a by simp
  from resolve_encounter_dispersal [OF res] lt small
  have "fst ?R \<and> fst (fst (snd ?R)) = Some disk_two_cells \<and>
        dispersed (fst (snd (snd ?R))) \<and> disk_mass (fst (snd (snd ?R))) = 0"
    by blast
  with lt small show ?thesis by blast
qed

section \<open>Properties of the registry\<close>

lemma update_fresh: "k \<notin> fst ` set al \<Longrightarrow> AList.update k v al = al @ [(k, v)]"
  by (induction al) auto

lemma register_fresh:
  assumes fresh: "k \<notin> fst ` set (disk_codes_indices reg)"
    and keys: "distinct (map fst (disk_codes_indices reg))"
    and vals: "distinct (map snd (disk_codes_indices reg))"
    and img: "set (map snd (disk_codes_indices reg)) = {0..<length (disk_codes reg)}"
  shows "distinct (map fst (disk_codes_indices (register (k, c) reg))) \<and>
         distinct (map snd (disk_codes_indices (register (k, c) reg))) \<and>
         set (map snd (disk_codes_indices (register (k, c) reg))) =
           {0..<length (disk_codes (register (k, c) reg))} \<and>
         length (disk_codes (register (k, c) reg)) = Suc (length (disk_codes reg)) \<and>
         fst ` set (disk_codes_indices (register (k, c) reg)) =
           insert k (fst ` set (disk_codes_indices reg))"
proof -
  have idx: "disk_codes_indices (register (k, c) reg) =
               disk_codes_indices reg @ [(k, length (disk_codes reg))]"
    by (simp add: register_def Let_def update_fresh [OF fresh])
  have codes: "disk_codes (register (k, c) reg) = disk_codes reg @ [c]"
    by (simp add: register_def Let_def)
  have "length (disk_codes reg) \<notin> set (map snd (disk_codes_indices reg))"
    unfolding img by simp
  then show ?thesis
    using fresh keys vals img unfolding idx codes
    by (auto simp: atLeast0_lessThan_Suc)
qed

lemma fold_register_dense:
  assumes "distinct (map fst small)"
    and "fst ` set small \<inter> fst ` set (disk_codes_indices reg) = {}"
    and "distinct (map fst (disk_codes_indices reg))"
    and "distinct (map snd (disk_codes_indices reg))"
    and "set (map snd (disk_codes_indices reg)) = {0..<length (disk_codes reg)}"
  shows "distinct (map fst (disk_codes_indices (fold register small reg))) \<and>
         distinct (map snd (disk_codes_indices (fold register small reg))) \<and>
         set (map snd (disk_codes_indices (fold register small reg))) =
           {0..<length (disk_codes (fold register small reg))} \<and>
         length (disk_codes (fold register small reg)) =
           length (disk_codes reg) + length small"
  using assms
proof (induction small arbitrary: reg)
  case Nil
  then show ?case by simp
next
  case (Cons e small)
  obtain k c where e: "e = (k, c)" by (cases e)
  have fresh: "k \<notin> fst ` set (disk_codes_indices reg)"
    using Cons.prems(2) e by auto
  note step = register_fresh [OF fresh Cons.prems(3) Cons.prems(4) Cons.prems(5), of c]
  have disj: "fst ` set small \<inter> fst ` set (disk_codes_indices (register (k, c) reg)) = {}"
    using step Cons.prems(1) Cons.prems(2) e by auto
  have d: "distinct (map fst small)" using Cons.prems(1) by simp
  from Cons.IH [OF d disj] step show ?case
    by (simp add: e)
qed

lemma initial_registry_dense:
  assumes "distinct (map fst small)"
  shows "registry_dense (initial_registry small)"
proof -
  let ?e = "\<lparr>disk_codes = [], disk_codes_indices = [], active_disks = 0\<rparr>"
  from fold_register_dense [OF assms, of ?e]
  show ?thesis
    by (simp add: registry_dense_def initial_registry_def)
qed

lemma decrement_image:
  assumes "(k::nat) < n"
  shows "(\<lambda>v. if v > k then v - 1 else v) ` ({0..<n} - {k}) = {0..<n - 1}"
proof (intro set_eqI iffI)
  fix x
  assume "x \<in> (\<lambda>v. if v > k then v - 1 else v) ` ({0..<n} - {k})"
  then show "x \<in> {0..<n - 1}" using assms by auto
next
  fix x
  assume x: "x \<in> {0..<n - 1}"
  show "x \<in> (\<lambda>v. if v > k then v - 1 else v) ` ({0..<n} - {k})"
  proof (cases "x < k")
    case True
    then have "x \<in> {0..<n} - {k}" "(if x > k then x - 1 else x) = x" using x by auto
    then show ?thesis by (metis (lifting) image_eqI)
  next
    case False
    then have "Suc x \<in> {0..<n} - {k}" "(if Suc x > k then Suc x - 1 else Suc x) = x"
      using x by auto
    then show ?thesis by (metis (lifting) image_eqI)
  qed
qed

lemma decrement_inj: "inj_on (\<lambda>v. if v > k then v - 1 else v) (A - {k::nat})"
  by (auto simp: inj_on_def split: if_splits)

lemma retire_dense:
  assumes dense: "registry_dense reg"
    and look: "map_of (disk_codes_indices reg) sk = Some k"
  shows "\<exists>reg'. retire sk reg = Inr reg' \<and> registry_dense reg' \<and>
           disk_codes reg' = take k (disk_codes reg) @ drop (Suc k) (disk_codes reg) \<and>
           map_of (disk_codes_indices reg') sk = None \<and>
           (\<forall>sk'. sk' \<noteq> sk \<longrightarrow>
              map_of (disk_codes_indices reg') sk' =
                map_option (\<lambda>v. if v > k then v - 1 else v)
                  (map_of (disk_codes_indices reg) sk')) \<and>
           active_disks reg' = active_disks reg - 1"
proof -
  let ?idx = "disk_codes_indices reg" and ?codes = "disk_codes reg"
  let ?dec = "\<lambda>v. if v > k then v - 1 else v"
  let ?f = "\<lambda>(i, v). if v > k then (i, v - 1) else (i, v)"
  let ?g = "\<lambda>(i, v). (i, ?dec v)"
  let ?A = "filter (\<lambda>p. sk \<noteq> fst p) ?idx"
  from dense have keys: "distinct (map fst ?idx)" and vals: "distinct (map snd ?idx)"
    and img: "set (map snd ?idx) = {0..<length ?codes}"
    and act: "active_disks reg = int (length ?codes)"
    by (simp_all add: registry_dense_def)
  have fg: "?f = ?g" by (auto simp: fun_eq_iff)
  have mem: "(sk, k) \<in> set ?idx" using look by (rule map_of_SomeD)
  then have "k \<in> set (map snd ?idx)" by force
  then have kn: "k < length ?codes" unfolding img by simp
  define reg' where "reg' = \<lparr>disk_codes = take k ?codes @ drop (Suc k) ?codes,
       disk_codes_indices = AList.delete sk (map ?f ?idx),
       active_disks = active_disks reg - 1\<rparr>"
  have ret: "retire sk reg = Inr reg'"
    using look kn by (simp add: retire_def reg'_def)
  have idx': "disk_codes_indices reg' = map ?g ?A"
    unfolding reg'_def fg
    by (simp add: AList.delete_eq filter_map o_def case_prod_unfold)
  have setA: "set (map snd ?A) = {0..<length ?codes} - {k}"
  proof (intro set_eqI iffI)
    fix v
    assume "v \<in> set (map snd ?A)"
    then obtain i where iv: "(i, v) \<in> set ?idx" "i \<noteq> sk" by auto
    have "v \<noteq> k"
    proof
      assume "v = k"
      with iv(1) mem vals have "i = sk"
        by (metis eq_key_imp_eq_value distinct_map inj_on_def prod.collapse snd_conv fst_conv)
      with iv(2) show False by simp
    qed
    moreover have "v \<in> set (map snd ?idx)" using iv(1) by force
    ultimately show "v \<in> {0..<length ?codes} - {k}" unfolding img by simp
  next
    fix v
    assume "v \<in> {0..<length ?codes} - {k}"
    then have "v \<in> set (map snd ?idx)" "v \<noteq> k" unfolding img by auto
    then obtain i where iv: "(i, v) \<in> set ?idx" by auto
    have "i \<noteq> sk"
    proof
      assume "i = sk"
      with iv mem keys have "v = k" by (metis eq_key_imp_eq_value)
      with \<open>v \<noteq> k\<close> show False by simp
    qed
    with iv show "v \<in> set (map snd ?A)" by force
  qed
  have distA: "distinct (map snd ?A)"
    using vals by (rule distinct_map_filter)
  have map_snd: "map snd (map ?g ?A) = map ?dec (map snd ?A)"
    by (simp add: case_prod_unfold)
  have map_fst: "map fst (map ?g ?A) = map fst ?A"
    by (simp add: case_prod_unfold)
  have d_vals: "distinct (map snd (disk_codes_indices reg'))"
    unfolding idx' map_snd
  proof (rule iffD2 [OF distinct_map], intro conjI)
    show "distinct (map snd ?A)" by (rule distA)
    show "inj_on ?dec (set (map snd ?A))" unfolding setA by (rule decrement_inj)
  qed
  have s_vals: "set (map snd (disk_codes_indices reg')) = {0..<length (disk_codes reg')}"
  proof -
    have "set (map snd (disk_codes_indices reg')) = ?dec ` ({0..<length ?codes} - {k})"
      unfolding idx' map_snd using setA by (simp only: set_map)
    also have "\<dots> = {0..<length ?codes - 1}" using kn by (rule decrement_image)
    also have "length ?codes - 1 = length (disk_codes reg')"
      using kn by (simp add: reg'_def)
    finally show ?thesis .
  qed
  have d_keys: "distinct (map fst (disk_codes_indices reg'))"
    unfolding idx' map_fst using keys by (rule distinct_map_filter)
  have a': "active_disks reg' = int (length (disk_codes reg'))"
    using kn act by (simp add: reg'_def)
  have dense': "registry_dense reg'"
    using d_keys d_vals s_vals a' by (simp add: registry_dense_def)
  have mo: "map_of (disk_codes_indices reg') = (map_option ?dec \<circ> map_of ?idx)(sk := None)"
    unfolding reg'_def fg by (simp add: AList.delete_conv' map_of_map)
  have "map_of (disk_codes_indices reg') sk = None" by (simp add: mo)
  moreover have "\<forall>sk'. sk' \<noteq> sk \<longrightarrow>
      map_of (disk_codes_indices reg') sk' = map_option ?dec (map_of ?idx sk')"
    by (simp add: mo)
  moreover have "disk_codes reg' = take k ?codes @ drop (Suc k) ?codes"
    "active_disks reg' = active_disks reg - 1"
    by (simp_all add: reg'_def)
  ultimately show ?thesis using ret dense' by blast
qed

lemma retire_all_dense:
  "registry_dense reg \<Longrightarrow> retire_all ks reg = Inr reg' \<Longrightarrow> registry_dense reg'"
proof (induction ks arbitrary: reg)
  case Nil
  then show ?case by simp
next
  case (Cons sk ks)
  from Cons.prems(2) obtain reg1 where r1: "retire sk reg = Inr reg1"
    and rest: "retire_all ks reg1 = Inr reg'"
    by (auto split: sum.splits)
  from r1 obtain k where "map_of (disk_codes_indices reg) sk = Some k"
    by (auto simp: retire_def split: option.splits)
  from retire_dense [OF Cons.prems(1) this] r1 have "registry_dense reg1" by auto
  from Cons.IH [OF this rest] show ?case .
qed

text \<open>
  C3. Start from the registry that the initialisation loop builds for small stars with
  pairwise different keys, and retire any sequence of stars (a run that raises no
  exception). Then the dictionary from star keys to indices is injective and its image
  is exactly \<open>0, \<dots>, active_disks - 1\<close>. Moreover, retiring any registered star, stored at
  index \<open>k\<close>, succeeds: it removes the star's entry and the \<open>k\<close>-th disk code, decrements
  every stored index greater than \<open>k\<close> by one, leaves the others, decrements
  \<open>active_disks\<close> by one, and the invariant holds again. Every retirement path of
  \<^verbatim>\<open>main\<close> runs this same sequence.
\<close>

theorem registry_stays_dense:
  assumes "distinct (map fst small)"
    and "retire_all ks (initial_registry small) = Inr reg"
  shows "registry_dense reg \<and>
         (\<forall>sk k. map_of (disk_codes_indices reg) sk = Some k \<longrightarrow>
            (\<exists>reg'. retire sk reg = Inr reg' \<and> registry_dense reg' \<and>
               disk_codes reg' = take k (disk_codes reg) @ drop (Suc k) (disk_codes reg) \<and>
               map_of (disk_codes_indices reg') sk = None \<and>
               (\<forall>sk'. sk' \<noteq> sk \<longrightarrow>
                  map_of (disk_codes_indices reg') sk' =
                    map_option (\<lambda>v. if v > k then v - 1 else v)
                      (map_of (disk_codes_indices reg) sk')) \<and>
               active_disks reg' = active_disks reg - 1))"
proof -
  have dense: "registry_dense reg"
    using initial_registry_dense [OF assms(1)] assms(2) by (rule retire_all_dense)
  with retire_dense show ?thesis by blast
qed

lemma initial_three:
  "initial_registry [(5, disk_two_cells), (7, disk_four_cells), (9, disk_two_cells)] =
     \<lparr>disk_codes = [disk_two_cells, disk_four_cells, disk_two_cells],
      disk_codes_indices = [(5, 0), (7, 1), (9, 2)], active_disks = 3\<rparr>"
  by (simp add: initial_registry_def register_def)

lemma retire_three:
  "retire_all [7] (initial_registry [(5, disk_two_cells), (7, disk_four_cells), (9, disk_two_cells)]) =
     Inr \<lparr>disk_codes = [disk_two_cells, disk_two_cells],
      disk_codes_indices = [(5, 0), (9, 1)], active_disks = 2\<rparr>"
  unfolding initial_three by (simp add: retire_def)

theorem registry_stays_dense_witness:
  "distinct (map fst [(5::nat, disk_two_cells), (7, disk_four_cells), (9, disk_two_cells)]) \<and>
   retire_all [7]
     (initial_registry [(5, disk_two_cells), (7, disk_four_cells), (9, disk_two_cells)]) =
     Inr \<lparr>disk_codes = [disk_two_cells, disk_two_cells],
          disk_codes_indices = [(5, 0), (9, 1)], active_disks = 2\<rparr> \<and>
   registry_dense \<lparr>disk_codes = [disk_two_cells, disk_two_cells],
                   disk_codes_indices = [(5, 0), (9, 1)], active_disks = 2\<rparr>"
proof -
  have d: "distinct (map fst [(5::nat, disk_two_cells), (7, disk_four_cells),
                              (9, disk_two_cells)])"
    by simp
  from registry_stays_dense [OF d retire_three] d retire_three
  show ?thesis by blast
qed

section \<open>Properties of the photoevaporation pass\<close>

lemma accumulate_Inr:
  assumes "accumulate_photoevap_loss fuv dt total_radiation reg ss = Inr (ss4, loss)"
  shows "key ss4 = key ss \<and>
         cumulative_photoevap_mass_loss ss4 = cumulative_photoevap_mass_loss ss + loss \<and>
         photoevap_mass_loss ss4 = loss \<and>
         (\<exists>k. map_of (disk_codes_indices reg) (key ss) = Some k \<and> k < length (disk_codes reg))"
  using assms
  by (auto simp: accumulate_photoevap_loss_def Let_def query_point_def lookup_code_def
      lookup_index_def split: sum.splits option.splits if_splits)

lemma retire_registered:
  assumes "map_of (disk_codes_indices reg) sk = Some k" and "k < length (disk_codes reg)"
  shows "\<exists>reg'. retire sk reg = Inr reg' \<and>
           disk_codes reg' = take k (disk_codes reg) @ drop (Suc k) (disk_codes reg) \<and>
           map_of (disk_codes_indices reg') sk = None \<and>
           active_disks reg' = active_disks reg - 1"
  using assms by (simp add: retire_def AList.delete_conv')

text \<open>
  C5. Let the first part of the photoevaporation step of a star succeed, giving the star
  with this step's EUV plus FUV loss added to its cumulative loss. If that cumulative
  loss is greater than or equal to the initial disk mass, or the disk mass is below 0.03
  Earth masses, the step is the retirement of the star and nothing else: disk radius and
  disk mass are zero, \<open>dispersed\<close> and \<open>checked\<close> are set, the star's entry is removed from
  the registry with its disk code, and \<^verbatim>\<open>evaporate\<close> takes no part in the result (the
  remaining disk codes are the ones the registry held). Equality of the cumulative loss
  and the initial disk mass satisfies the condition.
\<close>

theorem photoevaporation_retires:
  assumes acc: "accumulate_photoevap_loss fuv dt total_radiation reg ss = Inr (ss4, loss)"
    and cond: "cumulative_photoevap_mass_loss ss4 \<ge> initial_disk_mass ss4
               \<or> disk_mass ss4 < 0.03 * MEarth"
  shows "cumulative_photoevap_mass_loss ss4 = cumulative_photoevap_mass_loss ss + loss \<and>
         (\<exists>k ss' reg'.
            map_of (disk_codes_indices reg) (key ss) = Some k \<and>
            photoevaporate_star fuv t dt total_radiation ss reg = Inr (ss', reg') \<and>
            photoevaporate_star fuv t dt total_radiation ss reg = retire_star t ss4 reg \<and>
            disk_radius ss' = 0 \<and> disk_mass ss' = 0 \<and> dispersed ss' \<and> checked ss' \<and>
            \<not> code ss' \<and> dispersal_time ss' = t \<and>
            retire (key ss) reg = Inr reg' \<and>
            disk_codes reg' = take k (disk_codes reg) @ drop (Suc k) (disk_codes reg) \<and>
            map_of (disk_codes_indices reg') (key ss) = None \<and>
            active_disks reg' = active_disks reg - 1)"
proof -
  from accumulate_Inr [OF acc] obtain k where
    key4: "key ss4 = key ss" and
    cum: "cumulative_photoevap_mass_loss ss4 = cumulative_photoevap_mass_loss ss + loss" and
    k: "map_of (disk_codes_indices reg) (key ss) = Some k" "k < length (disk_codes reg)"
    by blast
  from retire_registered [OF k] obtain reg' where
    ret: "retire (key ss) reg = Inr reg'" and
    reg': "disk_codes reg' = take k (disk_codes reg) @ drop (Suc k) (disk_codes reg)"
      "map_of (disk_codes_indices reg') (key ss) = None"
      "active_disks reg' = active_disks reg - 1"
    by blast
  define ss' where "ss' = ss4\<lparr>disk_radius := 0, disk_mass := 0, dispersed := True,
      checked := True, code := False, dispersal_time := t\<rparr>"
  have step: "photoevaporate_star fuv t dt total_radiation ss reg = retire_star t ss4 reg"
    using cond by (simp add: photoevaporate_star_def acc apply_photoevaporation_def)
  have "retire_star t ss4 reg = Inr (ss', reg')"
    using ret by (simp add: retire_star_def key4 ss'_def)
  with step have "photoevaporate_star fuv t dt total_radiation ss reg = Inr (ss', reg')"
    "photoevaporate_star fuv t dt total_radiation ss reg = retire_star t ss4 reg"
    by simp_all
  moreover have "disk_radius ss' = 0" "disk_mass ss' = 0" "dispersed ss'" "checked ss'"
    "\<not> code ss'" "dispersal_time ss' = t"
    by (simp_all add: ss'_def)
  ultimately show ?thesis using cum k(1) ret reg' by blast
qed


lemma registry_a_eq:
  "registry_a = \<lparr>disk_codes = [disk_four_cells], disk_codes_indices = [(1, 0)],
                  active_disks = 1\<rparr>"
  by (simp add: registry_a_def initial_registry_def register_def)

lemma query_point_a:
  "query_point (\<lambda>k. 0) registry_a (star_a_half\<lparr>g0 := 0, EUV := False\<rparr>) =
     Inr (0.9, 0, get_disk_mass disk_four_cells 4, 4)"
  unfolding query_point_def lookup_code_def lookup_index_def registry_a_eq
  by (simp add: star_a_half_def star_a_def radius_four_cells)

lemma accumulate_a:
  "accumulate_photoevap_loss (\<lambda>s xi. 0.05) 1000 (\<lambda>k. 0) registry_a star_a_half =
     Inr (star_a_half\<lparr>g0 := 0, EUV := False, photoevap_mass_loss := 0.05,
                      cumulative_photoevap_mass_loss := 0.1\<rparr>, 0.05)"
proof -
  have k: "key star_a_half = 1" and e: "\<not> EUV star_a_half"
    and c: "cumulative_photoevap_mass_loss star_a_half = 0.05"
    by (simp_all add: star_a_half_def star_a_def)
  show ?thesis
    unfolding accumulate_photoevap_loss_def Let_def
    by (simp add: k e c query_point_a)
qed

theorem photoevaporation_retires_witness:
  "accumulate_photoevap_loss (\<lambda>s xi. 0.05) 1000 (\<lambda>k. 0) registry_a star_a_half =
     Inr (star_a_half\<lparr>g0 := 0, EUV := False, photoevap_mass_loss := 0.05,
                      cumulative_photoevap_mass_loss := 0.1\<rparr>, 0.05) \<and>
   cumulative_photoevap_mass_loss
     (star_a_half\<lparr>g0 := 0, EUV := False, photoevap_mass_loss := 0.05,
                  cumulative_photoevap_mass_loss := 0.1\<rparr>) =
   initial_disk_mass
     (star_a_half\<lparr>g0 := 0, EUV := False, photoevap_mass_loss := 0.05,
                  cumulative_photoevap_mass_loss := 0.1\<rparr>) \<and>
   (\<exists>ss' reg'.
      photoevaporate_star (\<lambda>s xi. 0.05) 7 1000 (\<lambda>k. 0) star_a_half registry_a =
        Inr (ss', reg') \<and>
      disk_radius ss' = 0 \<and> disk_mass ss' = 0 \<and> dispersed ss' \<and>
      disk_codes reg' = [] \<and> active_disks reg' = 0)"
proof -
  let ?s4 = "star_a_half\<lparr>g0 := 0, EUV := False, photoevap_mass_loss := 0.05,
                         cumulative_photoevap_mass_loss := 0.1\<rparr>"
  have eq: "cumulative_photoevap_mass_loss ?s4 = initial_disk_mass ?s4"
    by (simp add: star_a_half_def star_a_def)
  then have cond: "cumulative_photoevap_mass_loss ?s4 \<ge> initial_disk_mass ?s4
               \<or> disk_mass ?s4 < 0.03 * MEarth"
    by simp
  have k: "map_of (disk_codes_indices registry_a) (key star_a_half) = Some 0"
    by (simp add: registry_a_eq star_a_half_def star_a_def)
  from photoevaporation_retires [OF accumulate_a cond, of 7] k
  obtain ss' reg' where
    "photoevaporate_star (\<lambda>s xi. 0.05) 7 1000 (\<lambda>k. 0) star_a_half registry_a =
        Inr (ss', reg')"
    "disk_radius ss' = 0" "disk_mass ss' = 0" "dispersed ss'"
    "disk_codes reg' = take 0 (disk_codes registry_a) @ drop (Suc 0) (disk_codes registry_a)"
    "active_disks reg' = active_disks registry_a - 1"
    by auto
  then have "\<exists>ss' reg'.
      photoevaporate_star (\<lambda>s xi. 0.05) 7 1000 (\<lambda>k. 0) star_a_half registry_a =
        Inr (ss', reg') \<and>
      disk_radius ss' = 0 \<and> disk_mass ss' = 0 \<and> dispersed ss' \<and>
      disk_codes reg' = [] \<and> active_disks reg' = 0"
    by (simp add: registry_a_eq)
  with accumulate_a eq show ?thesis by blast
qed

section \<open>Properties of the FUV flux\<close>

text \<open>What one bright star adds to the flux of one small star, and what it does to the star.\<close>

lemma radiation_inner_fst:
  "fst (radiation_inner s small tot) =
     map (\<lambda>ss. if \<not> dispersed ss \<and> distance s ss * au_in_cm < dmin ss
               then ss\<lparr>EUV := True\<rparr> else ss) small"
  by (induction small arbitrary: tot) (auto simp: case_prod_unfold Let_def)

lemma radiation_inner_snd:
  "snd (radiation_inner s small tot) k =
     tot k + (\<Sum>ss\<leftarrow>small. if key ss = k \<and> \<not> dispersed ss \<and>
                                  \<not> distance s ss * au_in_cm < dmin ss
                               then radiation_ss_G0 s ss else 0)"
proof (induction small arbitrary: tot)
  case Nil
  show ?case by simp
next
  case (Cons ss small)
  show ?case
    by (simp add: case_prod_unfold Let_def Cons.IH)
qed

lemma EUV_update_irrelevant:
  "distance s (ss\<lparr>EUV := b\<rparr>) = distance s ss"
  "dmin (ss\<lparr>EUV := b\<rparr>) = dmin ss"
  "radiation_ss_G0 s (ss\<lparr>EUV := b\<rparr>) = radiation_ss_G0 s ss"
  by (simp_all add: distance_def dmin_def radiation_ss_G0_def)

lemma total_radiation_fold:
  "snd (fold (\<lambda>s (small, total_radiation). radiation_inner s small total_radiation)
          bright_stars (small, tot)) k =
     tot k + (\<Sum>s\<leftarrow>bright_stars. \<Sum>ss\<leftarrow>small.
                  if key ss = k \<and> \<not> dispersed ss \<and> \<not> distance s ss * au_in_cm < dmin ss
                  then radiation_ss_G0 s ss else 0)"
proof (induction bright_stars arbitrary: small tot)
  case Nil
  show ?case by simp
next
  case (Cons b bs)
  let ?mark = "\<lambda>ss. if \<not> dispersed ss \<and> distance b ss * au_in_cm < dmin ss
                     then ss\<lparr>EUV := True\<rparr> else ss"
  obtain small' tot' where step: "radiation_inner b small tot = (small', tot')"
    by (cases "radiation_inner b small tot") auto
  have small': "small' = map ?mark small"
    using radiation_inner_fst [of b small tot] step by simp
  have tot': "tot' k = tot k + (\<Sum>ss\<leftarrow>small. if key ss = k \<and> \<not> dispersed ss \<and>
                                  \<not> distance b ss * au_in_cm < dmin ss
                               then radiation_ss_G0 b ss else 0)"
    using radiation_inner_snd [of b small tot k] step by simp
  have same: "(\<Sum>ss\<leftarrow>small'. if key ss = k \<and> \<not> dispersed ss \<and>
                 \<not> distance s ss * au_in_cm < dmin ss then radiation_ss_G0 s ss else 0) =
              (\<Sum>ss\<leftarrow>small. if key ss = k \<and> \<not> dispersed ss \<and>
                 \<not> distance s ss * au_in_cm < dmin ss then radiation_ss_G0 s ss else 0)" for s
    unfolding small' map_map
    by (rule arg_cong [where f = sum_list], rule map_cong)
       (auto simp: EUV_update_irrelevant)
  show ?case
    by (simp add: step Cons.IH tot' same)
qed

lemma sum_list_single_key:
  assumes "distinct (map key small)" and "ss \<in> set small"
  shows "(\<Sum>x\<leftarrow>small. if key x = key ss \<and> P x then f x else (0::real)) =
           (if P ss then f ss else 0)"
  using assms
proof (induction small)
  case Nil
  then show ?case by simp
next
  case (Cons a small)
  show ?case
  proof (cases "a = ss")
    case True
    with Cons.prems(1) have "key ss \<notin> key ` set small" by simp
    then have "\<forall>x\<in>set small. key x \<noteq> key ss" by (metis imageI)
    then have "(\<Sum>x\<leftarrow>small. if key x = key ss \<and> P x then f x else 0) = 0"
      by (induction small) auto
    with True show ?thesis by simp
  next
    case False
    with Cons.prems have mem: "ss \<in> set small" and d: "distinct (map key small)"
      and "key a \<noteq> key ss"
      by force+
    with Cons.IH show ?thesis by simp
  qed
qed

text \<open>
  C6, as amended. For small stars with pairwise different keys and a small star \<open>ss\<close>
  that is not dispersed, the FUV coordinate \<^verbatim>\<open>xi[0][1]\<close> of the query point of \<open>ss\<close> is
  the sum, over the bright stars whose distance to \<open>ss\<close> is not below the EUV threshold
  \<^verbatim>\<open>dmin\<close> of \<open>ss\<close>, of the bright star's FUV luminosity spread over the sphere at
  that distance (in units of G0). A bright star closer than \<^verbatim>\<open>dmin\<close> contributes
  nothing to the coordinate.
\<close>

theorem fuv_query_coordinate:
  assumes "distinct (map key small_stars)" and "ss \<in> set small_stars" and "\<not> dispersed ss"
    and "key ss' = key ss"
    and "query_point (snd (total_radiation_pass bright_stars small_stars)) reg ss' =
           Inr (xi0, xi1, xi2, xi3)"
  shows "xi1 = (\<Sum>s\<leftarrow>bright_stars. if distance s ss * au_in_cm < dmin ss then 0
                                    else radiation_ss_G0 s ss)"
proof -
  have "xi1 = snd (total_radiation_pass bright_stars small_stars) (key ss)"
    using assms(4,5) by (auto simp: query_point_def split: sum.splits)
  also have "\<dots> = (\<Sum>s\<leftarrow>bright_stars. \<Sum>x\<leftarrow>small_stars.
                  if key x = key ss \<and> (\<not> dispersed x \<and> \<not> distance s x * au_in_cm < dmin x)
                  then radiation_ss_G0 s x else 0)"
    unfolding total_radiation_pass_def by (simp add: total_radiation_fold)
  also have "\<dots> = (\<Sum>s\<leftarrow>bright_stars. if \<not> distance s ss * au_in_cm < dmin ss
                                    then radiation_ss_G0 s ss else 0)"
    using assms(3)
    by (simp add: sum_list_single_key [OF assms(1,2),
          where P = "\<lambda>x. \<not> dispersed x \<and> \<not> distance _ x * au_in_cm < dmin x"])
  also have "\<dots> = (\<Sum>s\<leftarrow>bright_stars. if distance s ss * au_in_cm < dmin ss then 0
                                    else radiation_ss_G0 s ss)"
    by (rule arg_cong [where f = sum_list]) auto
  finally show ?thesis .
qed


lemma distance_on_x_axis:
  "position s1 = (a, 0, 0) \<Longrightarrow> position s2 = (b, 0, 0) \<Longrightarrow> distance s1 s2 = \<bar>b - a\<bar>"
  by (simp add: distance_def)

lemma distance_bright_a: "distance star_bright star_a = 1 / 2"
  using distance_on_x_axis [of star_bright 0 star_a "1 / 2"]
  by (simp add: star_bright_def star_b_def star_a_def)

lemma distance_far_a: "distance star_far star_a = 1999999 / 2"
  using distance_on_x_axis [of star_far 1000000 star_a "1 / 2"]
  by (simp add: star_far_def star_bright_def star_b_def star_a_def)

lemma dmin_a_bounds: "5 * 10 ^ 17 * 0.25 \<le> dmin star_a" "dmin star_a \<le> 5 * 10 ^ 17"
proof -
  have r: "disk_radius star_a = 100" by (simp add: star_a_def)
  have lo: "1 \<le> sqrt (100 * au_in_cm / 10 ^ 14)"
    by (simp add: au_in_cm_def)
  have hi: "sqrt (100 * au_in_cm / 10 ^ 14) \<le> 4"
    by (rule real_le_lsqrt) (simp_all add: au_in_cm_def)
  show "5 * 10 ^ 17 * 0.25 \<le> dmin star_a" using lo by (simp add: dmin_def r)
  show "dmin star_a \<le> 5 * 10 ^ 17" using hi by (simp add: dmin_def r)
qed

lemma bright_is_near: "distance star_bright star_a * au_in_cm < dmin star_a"
proof -
  have "distance star_bright star_a * au_in_cm < 5 * 10 ^ 17 * 0.25"
    by (simp add: distance_bright_a au_in_cm_def)
  with dmin_a_bounds(1) show ?thesis by linarith
qed

lemma far_is_far: "\<not> distance star_far star_a * au_in_cm < dmin star_a"
proof -
  have "5 * 10 ^ 17 \<le> distance star_far star_a * au_in_cm"
    by (simp add: distance_far_a au_in_cm_def)
  with dmin_a_bounds(2) show ?thesis by linarith
qed

lemma luminosity_25_positive: "0 < luminosity_fit 25"
  by (simp add: luminosity_fit_def)

lemma radiation_bright_positive: "0 < radiation_ss_G0 star_bright star_a"
proof -
  have m: "stellar_mass star_bright = 25" by (simp add: star_bright_def star_b_def)
  have "0 < luminosity_fit 25 * LSun_in_erg_s"
    using luminosity_25_positive by (simp add: LSun_in_erg_s_def)
  moreover have "0 < 4 * pi * (distance star_bright star_a * au_in_cm)\<^sup>2"
    by (simp add: distance_bright_a au_in_cm_def)
  ultimately show ?thesis
    unfolding radiation_ss_G0_def radiation_at_distance_def m
    by (intro divide_pos_pos) simp_all
qed

lemma star_a_facts: "key star_a = 1" "\<not> dispersed star_a" "stellar_mass star_a = 0.9"
  by (simp_all add: star_a_def)

lemma pass_bright_only:
  "snd (total_radiation_pass [star_bright] [star_a]) = (\<lambda>k. 0)"
  by (simp add: total_radiation_pass_def star_a_facts bright_is_near)

lemma query_point_star_a:
  "query_point total_radiation registry_a star_a =
     Inr (0.9, total_radiation 1, get_disk_mass disk_four_cells 4, 4)"
  unfolding query_point_def lookup_code_def lookup_index_def registry_a_eq
  by (simp add: star_a_facts radius_four_cells)

text \<open>
  C6 as stated fails: \<open>star_bright\<close> is half an au from \<open>star_a\<close>, closer than
  \<^verbatim>\<open>dmin\<close>, so it only sets the EUV flag; the FUV coordinate of the query point of
  \<open>star_a\<close> is 0, while the flux of that bright star at \<open>star_a\<close> is positive.
\<close>

theorem fuv_query_coordinate_counterexample:
  "bright star_bright \<and> \<not> dispersed star_a \<and>
   query_point (snd (total_radiation_pass [star_bright] [star_a])) registry_a star_a =
     Inr (0.9, 0, get_disk_mass disk_four_cells 4, 4) \<and>
   0 < (\<Sum>s\<leftarrow>[star_bright]. radiation_ss_G0 s star_a)"
  by (simp add: query_point_star_a pass_bright_only radiation_bright_positive star_a_facts)
     (simp add: star_bright_def)

theorem fuv_query_coordinate_witness:
  "distinct (map key [star_a]) \<and> star_a \<in> set [star_a] \<and> \<not> dispersed star_a \<and>
   query_point (snd (total_radiation_pass [star_bright, star_far] [star_a])) registry_a star_a =
     Inr (0.9, radiation_ss_G0 star_far star_a, get_disk_mass disk_four_cells 4, 4)"
proof -
  let ?tot = "snd (total_radiation_pass [star_bright, star_far] [star_a])"
  have d: "distinct (map key [star_a])" and m: "star_a \<in> set [star_a]" by simp_all
  have "?tot 1 = (\<Sum>s\<leftarrow>[star_bright, star_far].
                    if distance s star_a * au_in_cm < dmin star_a then 0
                    else radiation_ss_G0 s star_a)"
    by (rule fuv_query_coordinate [OF d m star_a_facts(2) refl query_point_star_a])
  then have "?tot 1 = radiation_ss_G0 star_far star_a"
    by (simp add: bright_is_near far_is_far)
  then show ?thesis
    using d star_a_facts(2) by (simp add: query_point_star_a)
qed

section \<open>Properties of the luminosity fit\<close>

lemma luminosity_fit_low: "m \<le> 0.12 \<Longrightarrow> luminosity_fit m = 0"
  unfolding luminosity_fit_def by simp

lemma luminosity_fit_at_boundaries:
  "luminosity_fit 0.12 = 0" "luminosity_fit 0.24 = 0" "luminosity_fit 0.56 = 0"
  "luminosity_fit 0.70 = 0" "luminosity_fit 0.91 = 0" "luminosity_fit 1.37 = 0"
  "luminosity_fit 2.07 = 0" "luminosity_fit 3.72 = 0" "luminosity_fit 10.0 = 0"
  "luminosity_fit 20.2 = 0"
  unfolding luminosity_fit_def by simp_all

text \<open>
  C10. At each boundary of the piecewise fit (0.12, 0.24, 0.56, 0.70, 0.91, 1.37, 2.07,
  3.72, 10.0 and 20.2 MSun) and at every mass up to 0.12 MSun \<^verbatim>\<open>luminosity_fit\<close>
  returns 0, because the intervals of the fit are open; the flux that a bright star of
  such a mass contributes at a small star is then 0.
\<close>

theorem luminosity_fit_boundary:
  assumes "m \<in> {0.12, 0.24, 0.56, 0.70, 0.91, 1.37, 2.07, 3.72, 10.0, 20.2} \<or> m \<le> 0.12"
  shows "luminosity_fit m = 0 \<and>
         (stellar_mass s = m \<longrightarrow> radiation_ss_G0 s ss = 0)"
proof -
  have zero: "luminosity_fit m = 0"
    using assms luminosity_fit_low [of m] luminosity_fit_at_boundaries by blast
  then show ?thesis
    by (simp add: radiation_ss_G0_def radiation_at_distance_def)
qed

theorem luminosity_fit_boundary_witness:
  "(2.07::real) \<in> {0.12, 0.24, 0.56, 0.70, 0.91, 1.37, 2.07, 3.72, 10.0, 20.2} \<and>
   (0.05::real) \<le> 0.12 \<and>
   luminosity_fit 2.07 = 0 \<and> luminosity_fit 20.2 = 0 \<and> luminosity_fit 0.05 = 0"
  using luminosity_fit_boundary [of "2.07"] luminosity_fit_boundary [of "20.2"]
    luminosity_fit_boundary [of "0.05"]
  by simp

end
